theory Spec2Isabelle
  imports Complex_Main "HOL-Library.Word"
begin

section \<open>Machine types\<close>

type_synonym ct_uint8_t = "8 word"
type_synonym ct_uint32_t = "32 word"
type_synonym ct_uint64_t = "64 word"

text \<open>
  An \<open>int\<close> of the program: 32 bits in two's complement. The value of \<open>a\<close> is \<open>sint a\<close>,
  a comparison \<open>a < b\<close> of the program is \<open>sint a < sint b\<close>, and \<open>+\<close> and \<open>-\<close> wrap around,
  as the compiled program computes them.
\<close>

type_synonym c_int = "32 word"

text \<open>
  A read of a C array: inside the allocated range it yields the element, outside it the
  behaviour of the program is undefined, which the model shows as \<open>None\<close>.
\<close>

definition nth_opt :: "'a list \<Rightarrow> nat \<Rightarrow> 'a option" where
  "nth_opt xs i = (if i < length xs then Some (xs ! i) else None)"

text \<open>
  A \<open>float\<close> or \<open>double\<close> value is represented by the expression that computes it from
  exactly given operands (integers and literals); the rounding of each operation is left
  to the hardware. \<open>fval\<close> is the exact value of such an expression, undefined (\<open>None\<close>)
  where a divisor is zero (the hardware gives an infinity or a NaN there).
\<close>

datatype fexpr = FConst real | FAdd fexpr fexpr | FMul fexpr fexpr | FDiv fexpr fexpr



section \<open>The spike statistics of the trial engine (control.cpp)\<close>

text \<open>
  The cell types, in the order in which \<open>initialize_spike_sums\<close> names them; the loops
  \<open>for (i = 0; i < NUM_CELL_TYPES; i++)\<close> run over \<open>cell_ids\<close>.
\<close>

datatype cell_id = MF | GR | GO | BC | SC | PC | IO | DCN

definition cell_ids :: "cell_id list" where
  "cell_ids = [MF, GR, GO, BC, SC, PC, IO, DCN]"

text \<open>
  Modelled from the spec: the declaration of the per-type tallies is in control.h, which
  is not part of the sources. The spec gives \<open>numCells: uint32\<close> and the two running
  totals as \<open>uint64\<close>; the counters are arrays of \<open>ct_uint32_t\<close> (control.cpp,
  \<open>initialize_spike_sums\<close>).
\<close>

record cell_spike_sums =
  num_cells :: ct_uint32_t
  non_cs_spike_sum :: ct_uint64_t
  cs_spike_sum :: ct_uint64_t
  non_cs_spike_counter :: "ct_uint32_t list"
  cs_spike_counter :: "ct_uint32_t list"

record cell_firing_rates =
  non_cs_mean_fr :: fexpr
  cs_mean_fr :: fexpr
  non_cs_median_fr :: fexpr
  cs_median_fr :: fexpr

text \<open>
  What the engine reads from the numeric kernel (\<open>CBMSimCore\<close>, not part of the sources):
  the spike and conductance arrays that the \<open>export...\<close> accessors of the input network
  and of each zone return, and the rest of the kernel's state, which stays abstract.
\<close>

record InNet =
  apGR :: "ct_uint8_t list"
  apGO :: "ct_uint8_t list"
  apSC :: "ct_uint8_t list"
  gSum_MFGO :: "fexpr list"
  gSum_GRGO :: "fexpr list"

record MZone =
  apBC :: "ct_uint8_t list"
  apPC :: "ct_uint8_t list"
  apIO :: "ct_uint8_t list"
  apNC :: "ct_uint8_t list"

record 'h CBMSimCore =
  inputNet :: InNet
  mzones :: "MZone list"
  hidden :: 'h

text \<open>
  The parameters that control.cpp reads as ambient values (their declarations are in
  headers that are not part of the sources): population sizes, zone count, trial counts
  and the timing of a trial in timesteps.
\<close>

record config =
  numMZones :: ct_uint32_t
  num_mf :: ct_uint32_t
  num_gr :: ct_uint32_t
  num_go :: ct_uint32_t
  num_bc :: ct_uint32_t
  num_sc :: ct_uint32_t
  num_pc :: ct_uint32_t
  num_io :: ct_uint32_t
  num_nc :: ct_uint32_t
  homeoTuningTrials :: c_int
  granuleActDetectTrials :: c_int
  numTrainingTrials :: c_int
  trialTime :: c_int
  csStart :: c_int
  csLength :: c_int
  csPhasicSize :: c_int
  gogoW :: fexpr
  spillFrac :: fexpr

datatype vis_mode = GUI | TUI | NO_VIS

text \<open>
  The fields of \<open>Control\<close> that the modelled member functions read or write. A pointer
  member is an \<open>option\<close>: \<open>None\<close> is the null pointer. \<open>'st\<close> is the simulation state
  container, \<open>'h\<close> the hidden part of the kernel, \<open>'fq\<close> and \<open>'m\<close> the two stimulus
  generators (\<open>ECMFPopulation\<close>, \<open>PoissonRegenCells\<close>).
\<close>

record ('st, 'h, 'fq, 'm) Control =
  con_params_populated :: bool
  act_params_populated :: bool
  simState :: "'st option"
  simCore :: "'h CBMSimCore option"
  mfFreq :: "'fq option"
  mfs :: "'m option"
  spike_sums_initialized :: bool
  sim_vis_mode :: vis_mode
  sim_is_paused :: bool
  in_run :: bool
  trial :: c_int
  mfAP :: "ct_uint8_t list"
  gr_indices :: "int list"
  spike_sums :: "cell_id \<Rightarrow> cell_spike_sums"
  cell_spikes :: "cell_id \<Rightarrow> ct_uint8_t list"
  firing_rates :: "cell_id \<Rightarrow> cell_firing_rates"

subsection \<open>\<open>Control::initialize_spike_sums\<close>\<close>

definition population :: "config \<Rightarrow> cell_id \<Rightarrow> ct_uint32_t" where
  "population cfg i =
     (case i of MF \<Rightarrow> num_mf cfg | GR \<Rightarrow> num_gr cfg | GO \<Rightarrow> num_go cfg | BC \<Rightarrow> num_bc cfg
      | SC \<Rightarrow> num_sc cfg | PC \<Rightarrow> num_pc cfg | IO \<Rightarrow> num_io cfg | DCN \<Rightarrow> num_nc cfg)"

definition initialize_spike_sums ::
  "config \<Rightarrow> ('st, 'h, 'fq, 'm) Control \<Rightarrow> ('st, 'h, 'fq, 'm) Control" where
  "initialize_spike_sums cfg c =
     c\<lparr>spike_sums := (\<lambda>i.
          \<lparr>num_cells = population cfg i,
           non_cs_spike_sum = 0,
           cs_spike_sum = 0,
           non_cs_spike_counter = replicate (unat (population cfg i)) 0,
           cs_spike_counter = replicate (unat (population cfg i)) 0\<rparr>),
       spike_sums_initialized := True\<rparr>"

subsection \<open>\<open>Control::update_spike_sums\<close>\<close>

text \<open>The inner loops \<open>for (j = 0; j < spike_sums[i].num_cells; j++)\<close>, over the indices \<open>j\<close>.\<close>

fun cs_add_cells ::
  "nat list \<Rightarrow> ct_uint8_t list \<Rightarrow> cell_spike_sums \<Rightarrow> cell_spike_sums option" where
  "cs_add_cells [] spk s = Some s"
| "cs_add_cells (j # js) spk s =
     (case nth_opt spk j of None \<Rightarrow> None
      | Some v \<Rightarrow>
         (case nth_opt (cs_spike_counter s) j of None \<Rightarrow> None
          | Some k \<Rightarrow>
             cs_add_cells js spk
               (s\<lparr>cs_spike_sum := cs_spike_sum s + ucast v,
                  cs_spike_counter := (cs_spike_counter s)[j := k + ucast v]\<rparr>)))"

fun non_cs_add_cells ::
  "nat list \<Rightarrow> ct_uint8_t list \<Rightarrow> cell_spike_sums \<Rightarrow> cell_spike_sums option" where
  "non_cs_add_cells [] spk s = Some s"
| "non_cs_add_cells (j # js) spk s =
     (case nth_opt spk j of None \<Rightarrow> None
      | Some v \<Rightarrow>
         (case nth_opt (non_cs_spike_counter s) j of None \<Rightarrow> None
          | Some k \<Rightarrow>
             non_cs_add_cells js spk
               (s\<lparr>non_cs_spike_sum := non_cs_spike_sum s + ucast v,
                  non_cs_spike_counter := (non_cs_spike_counter s)[j := k + ucast v]\<rparr>)))"

text \<open>The outer loops over the cell types.\<close>

fun cs_add_types ::
  "cell_id list \<Rightarrow> (cell_id \<Rightarrow> ct_uint8_t list) \<Rightarrow> (cell_id \<Rightarrow> cell_spike_sums)
   \<Rightarrow> (cell_id \<Rightarrow> cell_spike_sums) option" where
  "cs_add_types [] spk ss = Some ss"
| "cs_add_types (i # is) spk ss =
     (case cs_add_cells [0..<unat (num_cells (ss i))] (spk i) (ss i) of None \<Rightarrow> None
      | Some s' \<Rightarrow> cs_add_types is spk (ss(i := s')))"

fun non_cs_add_types ::
  "cell_id list \<Rightarrow> (cell_id \<Rightarrow> ct_uint8_t list) \<Rightarrow> (cell_id \<Rightarrow> cell_spike_sums)
   \<Rightarrow> (cell_id \<Rightarrow> cell_spike_sums) option" where
  "non_cs_add_types [] spk ss = Some ss"
| "non_cs_add_types (i # is) spk ss =
     (case non_cs_add_cells [0..<unat (num_cells (ss i))] (spk i) (ss i) of None \<Rightarrow> None
      | Some s' \<Rightarrow> non_cs_add_types is spk (ss(i := s')))"

text \<open>
  The eight assignments to \<open>cell_spikes\<close>: the mossy-fibre activity, three arrays of the
  input network, and four arrays of \<open>getMZoneList()[0]\<close>. A null \<open>simCore\<close> and an empty
  zone list have no defined result. The window test of \<open>update_spike_sums\<close> is
  \<open>tts >= csStart && tts < csStart + csLength\<close> on \<open>int\<close>s: the sum is the 32-bit one.
\<close>

definition export_spikes ::
  "ct_uint8_t list \<Rightarrow> 'h CBMSimCore \<Rightarrow> (cell_id \<Rightarrow> ct_uint8_t list) option" where
  "export_spikes mf core =
     (case mzones core of [] \<Rightarrow> None
      | z # _ \<Rightarrow>
         Some (\<lambda>i. case i of
                 MF \<Rightarrow> mf
               | GR \<Rightarrow> apGR (inputNet core)
               | GO \<Rightarrow> apGO (inputNet core)
               | BC \<Rightarrow> apBC z
               | SC \<Rightarrow> apSC (inputNet core)
               | PC \<Rightarrow> apPC z
               | IO \<Rightarrow> apIO z
               | DCN \<Rightarrow> apNC z))"

definition gather_cell_spikes ::
  "('st, 'h, 'fq, 'm) Control \<Rightarrow> (cell_id \<Rightarrow> ct_uint8_t list) option" where
  "gather_cell_spikes c =
     (case simCore c of None \<Rightarrow> None | Some core \<Rightarrow> export_spikes (mfAP c) core)"

definition update_spike_sums ::
  "config \<Rightarrow> c_int \<Rightarrow> ('st, 'h, 'fq, 'm) Control \<Rightarrow> ('st, 'h, 'fq, 'm) Control option" where
  "update_spike_sums cfg tts c =
     (case gather_cell_spikes c of None \<Rightarrow> None
      | Some spk \<Rightarrow>
         (if sint tts \<ge> sint (csStart cfg) \<and> sint tts < sint (csStart cfg + csLength cfg)
          then (case cs_add_types cell_ids spk (spike_sums c) of None \<Rightarrow> None
                | Some ss \<Rightarrow> Some (c\<lparr>cell_spikes := spk, spike_sums := ss\<rparr>))
          else if sint tts < sint (csStart cfg)
          then (case non_cs_add_types cell_ids spk (spike_sums c) of None \<Rightarrow> None
                | Some ss \<Rightarrow> Some (c\<lparr>cell_spikes := spk, spike_sums := ss\<rparr>))
          else Some (c\<lparr>cell_spikes := spk\<rparr>)))"

subsection \<open>\<open>Control::reset_spike_sums\<close>\<close>

text \<open>\<open>memset\<close> over the first \<open>n\<close> elements of an array.\<close>

definition zero_fill :: "nat \<Rightarrow> ct_uint32_t list \<Rightarrow> ct_uint32_t list" where
  "zero_fill n xs = replicate (min n (length xs)) 0 @ drop n xs"

definition reset_spike_sums ::
  "('st, 'h, 'fq, 'm) Control \<Rightarrow> ('st, 'h, 'fq, 'm) Control" where
  "reset_spike_sums c =
     c\<lparr>spike_sums := (\<lambda>i.
          (spike_sums c i)
            \<lparr>cs_spike_sum := 0,
             non_cs_spike_sum := 0,
             non_cs_spike_counter :=
               zero_fill (unat (num_cells (spike_sums c i))) (non_cs_spike_counter (spike_sums c i)),
             cs_spike_counter :=
               zero_fill (unat (num_cells (spike_sums c i))) (cs_spike_counter (spike_sums c i))\<rparr>)\<rparr>"

subsection \<open>\<open>Control::calculate_firing_rates\<close>\<close>

text \<open>\<open>std::sort(a, a + n)\<close>: the first \<open>n\<close> elements in ascending order, in place.\<close>

definition sort_prefix :: "nat \<Rightarrow> ct_uint32_t list \<Rightarrow> ct_uint32_t list" where
  "sort_prefix n xs = sort (take n xs) @ drop n xs"

text \<open>
  One pass of the loop body for cell type \<open>i\<close>. The two median indices are computed in
  the unsigned arithmetic of \<open>num_cells\<close>, so \<open>num_cells / 2 - 1\<close> wraps for fewer than
  two cells and the read is then outside the array.
\<close>

definition firing_rates_of ::
  "fexpr \<Rightarrow> cell_spike_sums \<Rightarrow> (cell_spike_sums \<times> cell_firing_rates) option" where
  "firing_rates_of non_cs_time s =
     (let n = num_cells s;
          nc = sort_prefix (unat n) (non_cs_spike_counter s);
          cc = sort_prefix (unat n) (cs_spike_counter s);
          lo = unat (n div 2 - 1);
          hi = unat (n div 2)
      in case nth_opt nc lo of None \<Rightarrow> None
         | Some nc_lo \<Rightarrow>
        (case nth_opt nc hi of None \<Rightarrow> None
         | Some nc_hi \<Rightarrow>
        (case nth_opt cc lo of None \<Rightarrow> None
         | Some cc_lo \<Rightarrow>
        (case nth_opt cc hi of None \<Rightarrow> None
         | Some cc_hi \<Rightarrow>
            Some (s\<lparr>non_cs_spike_counter := nc, cs_spike_counter := cc\<rparr>,
                  \<lparr>non_cs_mean_fr =
                     FDiv (FConst (real (unat (non_cs_spike_sum s))))
                          (FMul non_cs_time (FConst (real (unat n)))),
                   cs_mean_fr =
                     FDiv (FConst (real (unat (cs_spike_sum s))))
                          (FMul (FConst 2) (FConst (real (unat n)))),
                   non_cs_median_fr =
                     FDiv (FConst (real (unat (nc_lo + nc_hi))))
                          (FMul (FConst 2) non_cs_time),
                   cs_median_fr =
                     FDiv (FConst (real (unat (cc_lo + cc_hi)))) (FConst 4)\<rparr>)))))"

fun firing_rates_types ::
  "fexpr \<Rightarrow> cell_id list \<Rightarrow> (cell_id \<Rightarrow> cell_spike_sums) \<times> (cell_id \<Rightarrow> cell_firing_rates)
   \<Rightarrow> ((cell_id \<Rightarrow> cell_spike_sums) \<times> (cell_id \<Rightarrow> cell_firing_rates)) option" where
  "firing_rates_types t [] (ss, fr) = Some (ss, fr)"
| "firing_rates_types t (i # is) (ss, fr) =
     (case firing_rates_of t (ss i) of None \<Rightarrow> None
      | Some (s', r) \<Rightarrow> firing_rates_types t is (ss(i := s'), fr(i := r)))"

definition calculate_firing_rates ::
  "config \<Rightarrow> ('st, 'h, 'fq, 'm) Control \<Rightarrow> ('st, 'h, 'fq, 'm) Control option" where
  "calculate_firing_rates cfg c =
     (let non_cs_time = FDiv (FConst (real_of_int (sint (csStart cfg - 1)))) (FConst 1000)
      in case firing_rates_types non_cs_time cell_ids (spike_sums c, firing_rates c) of
           None \<Rightarrow> None
         | Some (ss, fr) \<Rightarrow> Some (c\<lparr>spike_sums := ss, firing_rates := fr\<rparr>))"

subsection \<open>What the tallies are to hold, in the spec's words\<close>

text \<open>
  The spec's \<open>recordTimestep\<close> "adds each cell's 0/1 spike flag into the matching sum and
  per-cell counter": \<open>add_flags\<close> is the sum after the flags of the first \<open>n\<close> cells are
  added, \<open>bump_counters\<close> the counters after each of these cells' flags is added to its own
  counter. The additions are those of the machine types.
\<close>

definition add_flags :: "ct_uint8_t list \<Rightarrow> nat \<Rightarrow> ct_uint64_t \<Rightarrow> ct_uint64_t" where
  "add_flags spk n acc = acc + sum_list (map (\<lambda>j. ucast (spk ! j)) [0..<n])"

definition bump_counters ::
  "ct_uint8_t list \<Rightarrow> nat \<Rightarrow> ct_uint32_t list \<Rightarrow> ct_uint32_t list" where
  "bump_counters spk n cnt = map (\<lambda>j. cnt ! j + ucast (spk ! j)) [0..<n] @ drop n cnt"

definition tally_cs :: "ct_uint8_t list \<Rightarrow> cell_spike_sums \<Rightarrow> cell_spike_sums" where
  "tally_cs spk s =
     s\<lparr>cs_spike_sum := add_flags spk (unat (num_cells s)) (cs_spike_sum s),
       cs_spike_counter := bump_counters spk (unat (num_cells s)) (cs_spike_counter s)\<rparr>"

definition tally_non_cs :: "ct_uint8_t list \<Rightarrow> cell_spike_sums \<Rightarrow> cell_spike_sums" where
  "tally_non_cs spk s =
     s\<lparr>non_cs_spike_sum := add_flags spk (unat (num_cells s)) (non_cs_spike_sum s),
       non_cs_spike_counter :=
         bump_counters spk (unat (num_cells s)) (non_cs_spike_counter s)\<rparr>"

text \<open>
  The tallies of a cell type are allocated when both counter arrays have \<open>num_cells\<close>
  elements, as \<open>initialize_spike_sums\<close> leaves them; a spike array covers a cell type when
  it has a flag for each of its cells.
\<close>

definition allocated :: "cell_spike_sums \<Rightarrow> bool" where
  "allocated s \<longleftrightarrow>
     length (cs_spike_counter s) = unat (num_cells s) \<and>
     length (non_cs_spike_counter s) = unat (num_cells s)"

definition covers :: "ct_uint8_t list \<Rightarrow> cell_spike_sums \<Rightarrow> bool" where
  "covers spk s \<longleftrightarrow> unat (num_cells s) \<le> length spk"

definition tracker_ready ::
  "(cell_id \<Rightarrow> ct_uint8_t list) \<Rightarrow> (cell_id \<Rightarrow> cell_spike_sums) \<Rightarrow> bool" where
  "tracker_ready spk ss \<longleftrightarrow> list_all (\<lambda>i. allocated (ss i) \<and> covers (spk i) (ss i)) cell_ids"

subsection \<open>The scenario of the spec, as a concrete engine\<close>

text \<open>
  Section 8 of the spec: four mossy fibres, a CS window of five timesteps that starts at
  timestep 10, a trial of twenty timesteps. The other populations have two cells, and
  there are two zones, so that a zone other than zone 0 exists.
\<close>

definition scenario_cfg :: config where
  "scenario_cfg =
     \<lparr>numMZones = 2, num_mf = 4, num_gr = 2, num_go = 2, num_bc = 2, num_sc = 2,
      num_pc = 2, num_io = 2, num_nc = 2,
      homeoTuningTrials = 0, granuleActDetectTrials = 0, numTrainingTrials = 2,
      trialTime = 20, csStart = 10, csLength = 5, csPhasicSize = 2,
      gogoW = FConst 0, spillFrac = FConst 0\<rparr>"

definition scenario_core :: "unit CBMSimCore" where
  "scenario_core =
     \<lparr>inputNet = \<lparr>apGR = [1, 0], apGO = [0, 1], apSC = [1, 1],
                   gSum_MFGO = [FConst 0, FConst 0], gSum_GRGO = [FConst 0, FConst 0]\<rparr>,
      mzones = [\<lparr>apBC = [1, 0], apPC = [0, 1], apIO = [0, 0], apNC = [1, 1]\<rparr>,
                \<lparr>apBC = [0, 1], apPC = [1, 0], apIO = [1, 1], apNC = [0, 0]\<rparr>],
      hidden = ()\<rparr>"

definition scenario_control :: "(unit, unit, unit, unit) Control" where
  "scenario_control =
     initialize_spike_sums scenario_cfg
       \<lparr>con_params_populated = True, act_params_populated = True,
        simState = Some (), simCore = Some scenario_core,
        mfFreq = Some (), mfs = Some (),
        spike_sums_initialized = False, sim_vis_mode = GUI,
        sim_is_paused = False, in_run = False, trial = 0,
        mfAP = [1, 1, 0, 1], gr_indices = [],
        spike_sums = (\<lambda>i. \<lparr>num_cells = 0, non_cs_spike_sum = 0, cs_spike_sum = 0,
                             non_cs_spike_counter = [], cs_spike_counter = []\<rparr>),
        cell_spikes = (\<lambda>i. []),
        firing_rates = (\<lambda>i. \<lparr>non_cs_mean_fr = FConst 0, cs_mean_fr = FConst 0,
                               non_cs_median_fr = FConst 0, cs_median_fr = FConst 0\<rparr>)\<rparr>"

definition scenario_spikes :: "cell_id \<Rightarrow> ct_uint8_t list" where
  "scenario_spikes =
     (\<lambda>i. case i of MF \<Rightarrow> [1, 1, 0, 1] | GR \<Rightarrow> [1, 0] | GO \<Rightarrow> [0, 1] | BC \<Rightarrow> [1, 0]
          | SC \<Rightarrow> [1, 1] | PC \<Rightarrow> [0, 1] | IO \<Rightarrow> [0, 0] | DCN \<Rightarrow> [1, 1])"

text \<open>The same kernel with other activity in zone 1, and a kernel with no zone but zone 0.\<close>

definition scenario_core' :: "unit CBMSimCore" where
  "scenario_core' =
     scenario_core\<lparr>mzones :=
       [\<lparr>apBC = [1, 0], apPC = [0, 1], apIO = [0, 0], apNC = [1, 1]\<rparr>,
        \<lparr>apBC = [1, 1], apPC = [1, 1], apIO = [0, 0], apNC = [1, 1]\<rparr>]\<rparr>"


subsection \<open>Sequences of updates and resets\<close>

text \<open>
  Between two calls of \<open>update_spike_sums\<close> the engine replaces the mossy-fibre activity
  \<open>mfAP\<close> and advances the kernel, so a recording step carries the timestep together with
  the activity and the kernel that the call finds. \<open>run_ops\<close> applies a sequence of
  recordings and resets to the engine.
\<close>

datatype 'h tracker_op = Record c_int "ct_uint8_t list" "'h CBMSimCore" | Reset

fun run_ops ::
  "config \<Rightarrow> 'h tracker_op list \<Rightarrow> ('st, 'h, 'fq, 'm) Control
   \<Rightarrow> ('st, 'h, 'fq, 'm) Control option" where
  "run_ops cfg [] c = Some c"
| "run_ops cfg (Reset # ops) c = run_ops cfg ops (reset_spike_sums c)"
| "run_ops cfg (Record t mf core # ops) c =
     (case update_spike_sums cfg t (c\<lparr>mfAP := mf, simCore := Some core\<rparr>) of None \<Rightarrow> None
      | Some c' \<Rightarrow> run_ops cfg ops c')"

text \<open>
  A sequence is recordable, \<open>m\<close> recordings after the last reset, when every recording
  finds a zone 0 and spike arrays that hold a flag 0 or 1 for each cell of each
  population, and fewer than \<open>2^32\<close> recordings follow one another without a reset (a
  trial has fewer than \<open>2^31\<close> timesteps, and the engine resets at the end of each trial).
\<close>

definition binary_flags :: "config \<Rightarrow> (cell_id \<Rightarrow> ct_uint8_t list) \<Rightarrow> bool" where
  "binary_flags cfg spk \<longleftrightarrow>
     list_all (\<lambda>i. unat (population cfg i) \<le> length (spk i) \<and>
                   list_all (\<lambda>v. v \<le> 1) (take (unat (population cfg i)) (spk i))) cell_ids"

fun recordable :: "config \<Rightarrow> nat \<Rightarrow> 'h tracker_op list \<Rightarrow> bool" where
  "recordable cfg m [] = True"
| "recordable cfg m (Reset # ops) = recordable cfg 0 ops"
| "recordable cfg m (Record t mf core # ops) =
     (Suc m < 2 ^ 32 \<and>
      (case export_spikes mf core of None \<Rightarrow> False | Some spk \<Rightarrow> binary_flags cfg spk) \<and>
      recordable cfg (Suc m) ops)"

text \<open>
  Auxiliary: a sum and its counters agree, the \<open>n\<close> counters being at most \<open>m\<close>; and the
  tallies of an engine are those of its populations, each in this state.
\<close>

definition tally_ok :: "nat \<Rightarrow> nat \<Rightarrow> ct_uint64_t \<Rightarrow> ct_uint32_t list \<Rightarrow> bool" where
  "tally_ok m n acc cnt \<longleftrightarrow>
     length cnt = n \<and> list_all (\<lambda>x. unat x \<le> m) cnt \<and> unat acc = sum_list (map unat cnt)"

definition tallies_ok :: "config \<Rightarrow> nat \<Rightarrow> (cell_id \<Rightarrow> cell_spike_sums) \<Rightarrow> bool" where
  "tallies_ok cfg m ss \<longleftrightarrow>
     (\<forall>i. num_cells (ss i) = population cfg i \<and>
          tally_ok m (unat (population cfg i)) (cs_spike_sum (ss i)) (cs_spike_counter (ss i)) \<and>
          tally_ok m (unat (population cfg i)) (non_cs_spike_sum (ss i))
            (non_cs_spike_counter (ss i)))"

text \<open>A short run of the scenario: two recordings, a reset, two recordings.\<close>

definition scenario_ops :: "unit tracker_op list" where
  "scenario_ops =
     [Record 3 [1, 1, 0, 1] scenario_core, Record 12 [0, 1, 0, 1] scenario_core, Reset,
      Record 11 [1, 0, 0, 0] scenario_core, Record 17 [1, 1, 1, 1] scenario_core]"


section \<open>The simulation state container (cbmstate.cpp)\<close>

text \<open>
  \<open>CBMState\<close> owns one connectivity and one activity state of the input network and, for
  each of its \<open>numZones\<close> zones, one connectivity and one activity state. The four
  classes of sub-states are not part of the sources; their types are the parameters
  \<open>'ic\<close>, \<open>'ia\<close>, \<open>'mc\<close> and \<open>'ma\<close>.
\<close>

record ('ic, 'ia, 'mc, 'ma) CBMState =
  numZones :: ct_uint32_t
  innetConState :: 'ic
  innetActState :: 'ia
  mzoneConStates :: "'mc list"
  mzoneActStates :: "'ma list"

subsection \<open>\<open>CBMState::CBMState(unsigned int nZones)\<close>\<close>

text \<open>
  What the generating constructor calls and does not define: the random generator
  \<open>CRandomSFMT\<close> (its seeding and its \<open>IRandom(min, max)\<close>, which returns a number and
  advances the generator) and the generating constructors of the four sub-states.
\<close>

record ('g, 'ic, 'ia, 'mc, 'ma) generators =
  CRandomSFMT :: "int \<Rightarrow> 'g"
  IRandom :: "int \<Rightarrow> int \<Rightarrow> 'g \<Rightarrow> int \<times> 'g"
  new_InNetConnectivityState :: "int \<Rightarrow> 'ic"
  new_InNetActivityState :: 'ia
  new_MZoneConnectivityState :: "int \<Rightarrow> 'mc"
  new_MZoneActivityState :: "int \<Rightarrow> 'ma"

definition INT_MAX :: int where
  "INT_MAX = 2147483647"

text \<open>\<open>time(0)\<close> is the clock in seconds; the generator takes it as an \<open>int\<close> of 32 bits.\<close>

definition time_seed :: "int \<Rightarrow> int" where
  "time_seed now = sint (word_of_int now :: 32 word)"

text \<open>
  The loop \<open>for (i = 0; i < nZones; i++)\<close>: per zone, the connectivity seed is drawn, then
  the activity seed, and the two states are made from them.
\<close>

fun generate_zones ::
  "('g, 'ic, 'ia, 'mc, 'ma) generators \<Rightarrow> nat \<Rightarrow> 'g \<Rightarrow> 'mc list \<times> 'ma list \<times> 'g" where
  "generate_zones G 0 g = ([], [], g)"
| "generate_zones G (Suc n) g =
     (let (mzoneCRSeed, g1) = IRandom G 0 INT_MAX g;
          (mzoneARSeed, g2) = IRandom G 0 INT_MAX g1;
          (cons, acts, g3) = generate_zones G n g2
      in (new_MZoneConnectivityState G mzoneCRSeed # cons,
          new_MZoneActivityState G mzoneARSeed # acts, g3))"

text \<open>The constructor reads the clock itself: \<open>now\<close> is what \<open>time(0)\<close> returns to it.\<close>

definition CBMState_generate ::
  "('g, 'ic, 'ia, 'mc, 'ma) generators \<Rightarrow> int \<Rightarrow> ct_uint32_t \<Rightarrow> ('ic, 'ia, 'mc, 'ma) CBMState" where
  "CBMState_generate G now nZones =
     (let randGen = CRandomSFMT G (time_seed now);
          (innetCRSeed, g1) = IRandom G 0 INT_MAX randGen;
          (cons, acts, g2) = generate_zones G (unat nZones) g1
      in \<lparr>numZones = nZones,
          innetConState = new_InNetConnectivityState G innetCRSeed,
          innetActState = new_InNetActivityState G,
          mzoneConStates = cons,
          mzoneActStates = acts\<rparr>)"

subsection \<open>Reading and writing\<close>

text \<open>
  A stream is the sequence of the elements still to be read, or the sequence written so
  far. What the container calls and does not define: for each class of sub-state its
  \<open>writeState\<close>, its constructor from a stream and its \<open>readState\<close>. A read on a
  \<open>std::fstream\<close> never throws: it returns with whatever it found, so a reader is a
  total function that yields a sub-state and the rest of the stream. \<open>'p\<close> is the
  plasticity type that the constructor of a zone's activity state takes.
\<close>

record ('ic, 'ia, 'mc, 'ma, 'p, 'b) codecs =
  write_InNetCon :: "'ic \<Rightarrow> 'b list"
  write_InNetAct :: "'ia \<Rightarrow> 'b list"
  write_MZoneCon :: "'mc \<Rightarrow> 'b list"
  write_MZoneAct :: "'ma \<Rightarrow> 'b list"
  load_InNetCon :: "'b list \<Rightarrow> 'ic \<times> 'b list"
  load_InNetAct :: "'b list \<Rightarrow> 'ia \<times> 'b list"
  load_MZoneCon :: "'b list \<Rightarrow> 'mc \<times> 'b list"
  load_MZoneAct :: "'p \<Rightarrow> 'b list \<Rightarrow> 'ma \<times> 'b list"
  read_InNetCon :: "'ic \<Rightarrow> 'b list \<Rightarrow> 'ic \<times> 'b list"
  read_InNetAct :: "'ia \<Rightarrow> 'b list \<Rightarrow> 'ia \<times> 'b list"
  read_MZoneCon :: "'mc \<Rightarrow> 'b list \<Rightarrow> 'mc \<times> 'b list"
  read_MZoneAct :: "'ma \<Rightarrow> 'b list \<Rightarrow> 'ma \<times> 'b list"

text \<open>\<open>CBMState::CBMState(unsigned int nZones, enum plasticity, std::fstream &)\<close>\<close>

fun load_zones ::
  "('ic, 'ia, 'mc, 'ma, 'p, 'b) codecs \<Rightarrow> 'p \<Rightarrow> nat \<Rightarrow> 'b list
   \<Rightarrow> 'mc list \<times> 'ma list \<times> 'b list" where
  "load_zones K p 0 f = ([], [], f)"
| "load_zones K p (Suc n) f =
     (let (con, f1) = load_MZoneCon K f;
          (act, f2) = load_MZoneAct K p f1;
          (cons, acts, f3) = load_zones K p n f2
      in (con # cons, act # acts, f3))"

definition CBMState_restore ::
  "('ic, 'ia, 'mc, 'ma, 'p, 'b) codecs \<Rightarrow> ct_uint32_t \<Rightarrow> 'p \<Rightarrow> 'b list
   \<Rightarrow> ('ic, 'ia, 'mc, 'ma) CBMState \<times> 'b list" where
  "CBMState_restore K nZones plast_type f =
     (let (ic, f1) = load_InNetCon K f;
          (ia, f2) = load_InNetAct K f1;
          (cons, acts, f3) = load_zones K plast_type (unat nZones) f2
      in (\<lparr>numZones = nZones, innetConState = ic, innetActState = ia,
           mzoneConStates = cons, mzoneActStates = acts\<rparr>, f3))"

text \<open>\<open>CBMState::readState\<close>, into the sub-states that the object holds.\<close>

fun read_zones ::
  "('ic, 'ia, 'mc, 'ma, 'p, 'b) codecs \<Rightarrow> nat list \<Rightarrow> 'mc list \<Rightarrow> 'ma list \<Rightarrow> 'b list
   \<Rightarrow> ('mc list \<times> 'ma list \<times> 'b list) option" where
  "read_zones K [] cons acts f = Some (cons, acts, f)"
| "read_zones K (i # is) cons acts f =
     (case nth_opt cons i of None \<Rightarrow> None
      | Some con \<Rightarrow>
         (case nth_opt acts i of None \<Rightarrow> None
          | Some act \<Rightarrow>
             (let (con', f1) = read_MZoneCon K con f;
                  (act', f2) = read_MZoneAct K act f1
              in read_zones K is (cons[i := con']) (acts[i := act']) f2)))"

definition readState ::
  "('ic, 'ia, 'mc, 'ma, 'p, 'b) codecs \<Rightarrow> ('ic, 'ia, 'mc, 'ma) CBMState \<Rightarrow> 'b list
   \<Rightarrow> (('ic, 'ia, 'mc, 'ma) CBMState \<times> 'b list) option" where
  "readState K s infile =
     (let (ic, f1) = read_InNetCon K (innetConState s) infile;
          (ia, f2) = read_InNetAct K (innetActState s) f1
      in case read_zones K [0..<unat (numZones s)] (mzoneConStates s) (mzoneActStates s) f2 of
           None \<Rightarrow> None
         | Some (cons, acts, f3) \<Rightarrow>
             Some (s\<lparr>innetConState := ic, innetActState := ia,
                     mzoneConStates := cons, mzoneActStates := acts\<rparr>, f3))"

text \<open>\<open>CBMState::writeState\<close>, appending to what the stream holds.\<close>

fun write_zones ::
  "('ic, 'ia, 'mc, 'ma, 'p, 'b) codecs \<Rightarrow> nat list \<Rightarrow> 'mc list \<Rightarrow> 'ma list \<Rightarrow> 'b list
   \<Rightarrow> 'b list option" where
  "write_zones K [] cons acts out = Some out"
| "write_zones K (i # is) cons acts out =
     (case nth_opt cons i of None \<Rightarrow> None
      | Some con \<Rightarrow>
         (case nth_opt acts i of None \<Rightarrow> None
          | Some act \<Rightarrow>
             write_zones K is cons acts (out @ write_MZoneCon K con @ write_MZoneAct K act)))"

definition writeState ::
  "('ic, 'ia, 'mc, 'ma, 'p, 'b) codecs \<Rightarrow> ('ic, 'ia, 'mc, 'ma) CBMState \<Rightarrow> 'b list
   \<Rightarrow> 'b list option" where
  "writeState K s outfile =
     write_zones K [0..<unat (numZones s)] (mzoneConStates s) (mzoneActStates s)
       (outfile @ write_InNetCon K (innetConState s) @ write_InNetAct K (innetActState s))"

subsection \<open>The contract of the container, in the spec's words\<close>

text \<open>
  The wire order of the spec: input-network connectivity, input-network activity, then for
  each zone in index order its connectivity and then its activity.
\<close>

definition wire_layout ::
  "('ic, 'ia, 'mc, 'ma, 'p, 'b) codecs \<Rightarrow> ('ic, 'ia, 'mc, 'ma) CBMState \<Rightarrow> 'b list" where
  "wire_layout K s =
     write_InNetCon K (innetConState s) @ write_InNetAct K (innetActState s) @
     concat (map (\<lambda>(con, act). write_MZoneCon K con @ write_MZoneAct K act)
               (zip (mzoneConStates s) (mzoneActStates s)))"

text \<open>
  Each sub-state reads back what it wrote, whatever follows it in the stream: the
  property of the sub-state classes on which a round trip of the container rests.
\<close>

definition codecs_roundtrip :: "('ic, 'ia, 'mc, 'ma, 'p, 'b) codecs \<Rightarrow> 'p \<Rightarrow> bool" where
  "codecs_roundtrip K p \<longleftrightarrow>
     (\<forall>x rest. load_InNetCon K (write_InNetCon K x @ rest) = (x, rest)) \<and>
     (\<forall>x rest. load_InNetAct K (write_InNetAct K x @ rest) = (x, rest)) \<and>
     (\<forall>x rest. load_MZoneCon K (write_MZoneCon K x @ rest) = (x, rest)) \<and>
     (\<forall>x rest. load_MZoneAct K p (write_MZoneAct K x @ rest) = (x, rest)) \<and>
     (\<forall>y x rest. read_InNetCon K y (write_InNetCon K x @ rest) = (x, rest)) \<and>
     (\<forall>y x rest. read_InNetAct K y (write_InNetAct K x @ rest) = (x, rest)) \<and>
     (\<forall>y x rest. read_MZoneCon K y (write_MZoneCon K x @ rest) = (x, rest)) \<and>
     (\<forall>y x rest. read_MZoneAct K y (write_MZoneAct K x @ rest) = (x, rest))"

text \<open>
  The spec's \<open>restore\<close> "fails with a \<open>CorruptState\<close> condition if the stream is exhausted
  before all fields are read". The format is positional: \<open>sizes\<close> gives the number of
  stream elements of each of the four kinds of field.
\<close>

datatype restore_error = CorruptState

record field_sizes =
  size_InNetCon :: nat
  size_InNetAct :: nat
  size_MZoneCon :: nat
  size_MZoneAct :: nat

definition fields_length :: "field_sizes \<Rightarrow> ct_uint32_t \<Rightarrow> nat" where
  "fields_length sizes nZones =
     size_InNetCon sizes + size_InNetAct sizes +
     unat nZones * (size_MZoneCon sizes + size_MZoneAct sizes)"

definition restore_spec ::
  "field_sizes \<Rightarrow> ('ic, 'ia, 'mc, 'ma, 'p, 'b) codecs \<Rightarrow> ct_uint32_t \<Rightarrow> 'p \<Rightarrow> 'b list
   \<Rightarrow> restore_error + ('ic, 'ia, 'mc, 'ma) CBMState \<times> 'b list" where
  "restore_spec sizes K nZones plast_type f =
     (if length f < fields_length sizes nZones then Inl CorruptState
      else Inr (CBMState_restore K nZones plast_type f))"

text \<open>
  The fields of a restored state, by their position in the stream: \<open>after_zones K p i f\<close>
  is what is left of the stream \<open>f\<close> when \<open>i\<close> zones, each a connectivity and then an
  activity state, have been read from it, and \<open>restore_by_position\<close> gives each field as
  what its reader yields from the stream where the reads before it have left it,
  together with what is left after the last read. Nothing in it depends on how long the
  stream is.
\<close>

fun after_zones :: "('ic, 'ia, 'mc, 'ma, 'p, 'b) codecs \<Rightarrow> 'p \<Rightarrow> nat \<Rightarrow> 'b list \<Rightarrow> 'b list" where
  "after_zones K p 0 f = f"
| "after_zones K p (Suc i) f =
     snd (load_MZoneAct K p (snd (load_MZoneCon K (after_zones K p i f))))"

definition restore_by_position ::
  "('ic, 'ia, 'mc, 'ma, 'p, 'b) codecs \<Rightarrow> ct_uint32_t \<Rightarrow> 'p \<Rightarrow> 'b list
   \<Rightarrow> ('ic, 'ia, 'mc, 'ma) CBMState \<times> 'b list" where
  "restore_by_position K nZones plast_type f =
     (let f1 = snd (load_InNetCon K f);
          f2 = snd (load_InNetAct K f1)
      in (\<lparr>numZones = nZones,
           innetConState = fst (load_InNetCon K f),
           innetActState = fst (load_InNetAct K f1),
           mzoneConStates =
             map (\<lambda>i. fst (load_MZoneCon K (after_zones K plast_type i f2))) [0..<unat nZones],
           mzoneActStates =
             map (\<lambda>i. fst (load_MZoneAct K plast_type
                              (snd (load_MZoneCon K (after_zones K plast_type i f2)))))
               [0..<unat nZones]\<rparr>,
          after_zones K plast_type (unat nZones) f2))"

text \<open>
  The spec's \<open>create(zoneCount, seed)\<close>: the top-level seed is the caller's, one generator
  stream gives the input-network connectivity seed first and then, in zone order, a
  connectivity seed and an activity seed per zone. \<open>draws\<close> are the first numbers of a
  generator stream.
\<close>

fun draws :: "('g, 'ic, 'ia, 'mc, 'ma) generators \<Rightarrow> nat \<Rightarrow> 'g \<Rightarrow> int list" where
  "draws G 0 g = []"
| "draws G (Suc n) g = (let (x, g') = IRandom G 0 INT_MAX g in x # draws G n g')"

definition create_spec ::
  "('g, 'ic, 'ia, 'mc, 'ma) generators \<Rightarrow> ct_uint32_t \<Rightarrow> int \<Rightarrow> ('ic, 'ia, 'mc, 'ma) CBMState" where
  "create_spec G zoneCount seed =
     (let ds = draws G (1 + 2 * unat zoneCount) (CRandomSFMT G seed)
      in \<lparr>numZones = zoneCount,
          innetConState = new_InNetConnectivityState G (ds ! 0),
          innetActState = new_InNetActivityState G,
          mzoneConStates =
            map (\<lambda>i. new_MZoneConnectivityState G (ds ! (1 + 2 * i))) [0..<unat zoneCount],
          mzoneActStates =
            map (\<lambda>i. new_MZoneActivityState G (ds ! (2 + 2 * i))) [0..<unat zoneCount]\<rparr>)"

subsection \<open>Concrete sub-states for the examples\<close>

text \<open>
  A sub-state that is one number, written as one stream element; a reader that finds the
  stream exhausted leaves the number it had (0 in a fresh object). A generator that
  returns its state and triples it stands for the random generator.
\<close>

definition toy_load :: "nat \<Rightarrow> nat list \<Rightarrow> nat \<times> nat list" where
  "toy_load old f = (case f of [] \<Rightarrow> (old, []) | b # bs \<Rightarrow> (b, bs))"

definition toy_codecs :: "(nat, nat, nat, nat, unit, nat) codecs" where
  "toy_codecs =
     \<lparr>write_InNetCon = (\<lambda>x. [x]), write_InNetAct = (\<lambda>x. [x]),
      write_MZoneCon = (\<lambda>x. [x]), write_MZoneAct = (\<lambda>x. [x]),
      load_InNetCon = toy_load 0, load_InNetAct = toy_load 0,
      load_MZoneCon = toy_load 0, load_MZoneAct = (\<lambda>p. toy_load 0),
      read_InNetCon = toy_load, read_InNetAct = toy_load,
      read_MZoneCon = toy_load, read_MZoneAct = toy_load\<rparr>"

definition toy_sizes :: field_sizes where
  "toy_sizes = \<lparr>size_InNetCon = 1, size_InNetAct = 1, size_MZoneCon = 1, size_MZoneAct = 1\<rparr>"

definition toy_generators :: "(int, nat, nat, nat, nat) generators" where
  "toy_generators =
     \<lparr>CRandomSFMT = (\<lambda>seed. seed),
      IRandom = (\<lambda>lo hi g. (if lo \<le> g \<and> g \<le> hi then g else lo, 3 * g + 1)),
      new_InNetConnectivityState = nat,
      new_InNetActivityState = 0,
      new_MZoneConnectivityState = nat,
      new_MZoneActivityState = nat\<rparr>"

section \<open>Setting up and saving the simulation (control.cpp)\<close>

text \<open>
  The world outside the engine that these member functions touch: the files, by name, the
  names under which a file can be opened for writing (the directory exists, the
  permissions allow it, and so on), and the lines written to the diagnostic output
  \<open>stderr\<close>.
\<close>

record 'b world =
  files :: "string \<Rightarrow> 'b list option"
  openable :: "string \<Rightarrow> bool"
  stderr :: "string list"

text \<open>
  What the member functions call and do not define: the constructor of the state
  container from a named file (declared in cbmstate.h; cbmstate.cpp has it commented
  out), here a function of the content of that file; the writers of the two parameter
  blocks; and the \<open>writeState\<close> of the kernel and of the state container.
\<close>

record ('st, 'h, 'b) persistence =
  CBMState_of_file :: "ct_uint32_t \<Rightarrow> 'b list option \<Rightarrow> 'st"
  write_con_params :: "config \<Rightarrow> 'b list"
  write_act_params :: "config \<Rightarrow> 'b list"
  simCore_writeState :: "'h CBMSimCore \<Rightarrow> 'b list"
  simState_writeState :: "'st \<Rightarrow> 'b list"

subsection \<open>\<open>Control::init_sim_state\<close>\<close>

definition init_sim_state ::
  "('st, 'h, 'b) persistence \<Rightarrow> config \<Rightarrow> string
   \<Rightarrow> ('st, 'h, 'fq, 'm) Control \<times> 'b world \<Rightarrow> ('st, 'h, 'fq, 'm) Control \<times> 'b world" where
  "init_sim_state P cfg stateFile cw =
     (case cw of (c, w) \<Rightarrow>
        if \<not> con_params_populated c
        then (c, w\<lparr>stderr := stderr w @
               [''[ERROR]: Trying to initialize state without first connectivity params.'',
                ''[ERROR]: (Hint: Load a connectivity parameter file first then load the state.'']\<rparr>)
        else if \<not> act_params_populated c
        then (c, w\<lparr>stderr := stderr w @
               [''[ERROR]: Trying to initialize state without first initializing activity params.'',
                ''[ERROR]: (Hint: Load an activity parameter file first then load the state.'']\<rparr>)
        else if simState c = None
        then (c\<lparr>simState := Some (CBMState_of_file P (numMZones cfg) (files w stateFile))\<rparr>, w)
        else (c, w\<lparr>stderr := stderr w @ [''[ERROR]: State already initialized.'']\<rparr>))"

subsection \<open>\<open>Control::save_sim_state_to_file\<close> and \<open>Control::save_sim_to_file\<close>\<close>

text \<open>
  Both open the output file only after the check, write through the kernel when there is
  one and through the state container otherwise, and close the file. Neither looks at the
  state of its \<open>std::fstream\<close>: when the file cannot be opened the stream is in a failed
  state, every write to it is dropped, and the function returns as if it had written,
  with no file made and nothing reported. When the file can be opened, it is made or
  emptied and then holds what was written.
\<close>

definition state_image ::
  "('st, 'h, 'b) persistence \<Rightarrow> ('st, 'h, 'fq, 'm) Control \<Rightarrow> 'b list option" where
  "state_image P c =
     (case simCore c of
        Some core \<Rightarrow> Some (simCore_writeState P core)
      | None \<Rightarrow> (case simState c of None \<Rightarrow> None | Some st \<Rightarrow> Some (simState_writeState P st)))"

definition save_sim_state_to_file ::
  "('st, 'h, 'b) persistence \<Rightarrow> string
   \<Rightarrow> ('st, 'h, 'fq, 'm) Control \<times> 'b world \<Rightarrow> ('st, 'h, 'fq, 'm) Control \<times> 'b world" where
  "save_sim_state_to_file P outStateFile cw =
     (case cw of (c, w) \<Rightarrow>
        if \<not> (con_params_populated c \<and> act_params_populated c \<and> simState c \<noteq> None)
        then (c, w\<lparr>stderr := stderr w @
               [''[ERROR]: Trying to write an uninitialized state to file.'',
                ''[ERROR]: (Hint: Try loading activity parameter file and initializing the state first.)'']\<rparr>)
        else if \<not> openable w outStateFile then (c, w)
        else (case state_image P c of
                None \<Rightarrow> (c, w)
              | Some img \<Rightarrow> (c, w\<lparr>files := (files w)(outStateFile \<mapsto> img)\<rparr>)))"

definition save_sim_to_file ::
  "('st, 'h, 'b) persistence \<Rightarrow> config \<Rightarrow> string
   \<Rightarrow> ('st, 'h, 'fq, 'm) Control \<times> 'b world \<Rightarrow> ('st, 'h, 'fq, 'm) Control \<times> 'b world" where
  "save_sim_to_file P cfg outSimFile cw =
     (case cw of (c, w) \<Rightarrow>
        if \<not> (con_params_populated c \<and> act_params_populated c \<and> simState c \<noteq> None)
        then (c, w\<lparr>stderr := stderr w @
               [''[ERROR]: Trying to write an uninitialized simulation to file.'',
                ''[ERROR]: (Hint: Try loading a build file first.)'']\<rparr>)
        else if \<not> openable w outSimFile then (c, w)
        else (case state_image P c of
                None \<Rightarrow> (c, w)
              | Some img \<Rightarrow>
                  (c, w\<lparr>files := (files w)(outSimFile \<mapsto>
                                write_con_params P cfg @ write_act_params P cfg @ img)\<rparr>)))"

text \<open>
  An engine of the scenario before any parameter is loaded, a persistence layer, and a
  world with one state file in which every name but one can be opened for writing.
\<close>

definition blank_control :: "(nat, unit, unit, unit) Control" where
  "blank_control =
     \<lparr>con_params_populated = False, act_params_populated = False,
      simState = None, simCore = None, mfFreq = None, mfs = None,
      spike_sums_initialized = False, sim_vis_mode = NO_VIS,
      sim_is_paused = False, in_run = False, trial = 0,
      mfAP = [], gr_indices = [],
      spike_sums = (\<lambda>i. \<lparr>num_cells = 0, non_cs_spike_sum = 0, cs_spike_sum = 0,
                           non_cs_spike_counter = [], cs_spike_counter = []\<rparr>),
      cell_spikes = (\<lambda>i. []),
      firing_rates = (\<lambda>i. \<lparr>non_cs_mean_fr = FConst 0, cs_mean_fr = FConst 0,
                             non_cs_median_fr = FConst 0, cs_median_fr = FConst 0\<rparr>)\<rparr>"

definition toy_persistence :: "(nat, unit, nat) persistence" where
  "toy_persistence =
     \<lparr>CBMState_of_file = (\<lambda>n f. case f of None \<Rightarrow> 0 | Some bs \<Rightarrow> sum_list bs),
      write_con_params = (\<lambda>cfg. [1]),
      write_act_params = (\<lambda>cfg. [2]),
      simCore_writeState = (\<lambda>core. [3]),
      simState_writeState = (\<lambda>st. [st])\<rparr>"

definition toy_world :: "nat world" where
  "toy_world =
     \<lparr>files = [''state.bin'' \<mapsto> [4, 5]],
      openable = (\<lambda>name. name \<noteq> ''/no/such/dir/sim.bin''),
      stderr = []\<rparr>"

section \<open>The trial loop (control.cpp, \<open>Control::runTrials\<close>)\<close>

subsection \<open>The surroundings of the engine\<close>

text \<open>
  What \<open>runTrials\<close> calls and does not define: the kernel's update functions, the
  frequency profiles of the mossy-fibre population and the Poisson generator (which
  returns an activity array and advances its own state), the terminal functions of the
  text front end, and the generator \<open>CRandomSFMT0\<close> that \<open>gen_gr_sample\<close> seeds with 0.
\<close>

record ('h, 'fq, 'fr, 'm, 'tty, 'g) externals =
  updateErrDrive :: "nat \<Rightarrow> fexpr \<Rightarrow> 'h CBMSimCore \<Rightarrow> 'h CBMSimCore"
  updateTrueMFs :: "bool list \<Rightarrow> 'h CBMSimCore \<Rightarrow> 'h CBMSimCore"
  updateMFInput :: "ct_uint8_t list \<Rightarrow> 'h CBMSimCore \<Rightarrow> 'h CBMSimCore"
  calcActivity :: "fexpr \<Rightarrow> fexpr \<Rightarrow> fexpr \<Rightarrow> fexpr \<Rightarrow> fexpr \<Rightarrow> 'h CBMSimCore \<Rightarrow> 'h CBMSimCore"
  getMFBG :: "'fq \<Rightarrow> 'fr"
  getMFFreqInCSPhasic :: "'fq \<Rightarrow> 'fr"
  getMFInCSTonicA :: "'fq \<Rightarrow> 'fr"
  calcPoissActivity :: "'fr \<Rightarrow> MZone list \<Rightarrow> 'm \<Rightarrow> ct_uint8_t list \<times> 'm"
  calcTrueMFs :: "'fr \<Rightarrow> 'm \<Rightarrow> bool list \<times> 'm"
  init_tty :: "'tty option \<Rightarrow> 'tty option"
  process_input :: "'tty option \<Rightarrow> c_int \<Rightarrow> c_int \<Rightarrow> 'tty option"
  reset_tty :: "'tty option \<Rightarrow> 'tty option"
  CRandomSFMT0 :: "int \<Rightarrow> 'g"
  IRandom0 :: "int \<Rightarrow> int \<Rightarrow> 'g \<Rightarrow> int \<times> 'g"

text \<open>
  The graphical front end is known to the engine through two GTK calls. An event of the
  front end runs a handler, which may change the two flags that the engine polls:
  \<open>in_run\<close> (cleared to cancel the run) and \<open>sim_is_paused\<close>. The future of the front end
  is a sequence of polls: at each poll either no event is pending (\<open>None\<close>) or the event
  with the given handler is; after the sequence no event ever arrives.
  \<open>gtk_events_pending\<close> tells whether an event is pending now; \<open>gtk_main_iteration\<close> runs
  the handler of the next event and waits for it if none is pending, for ever if none
  arrives (\<open>None\<close>).
\<close>

type_synonym handler = "bool \<times> bool \<Rightarrow> bool \<times> bool"

fun gtk_events_pending :: "handler option list \<Rightarrow> bool \<times> handler option list" where
  "gtk_events_pending [] = (False, [])"
| "gtk_events_pending (None # ps) = (False, ps)"
| "gtk_events_pending (Some h # ps) = (True, Some h # ps)"

fun gtk_main_iteration :: "handler option list \<Rightarrow> (handler \<times> handler option list) option" where
  "gtk_main_iteration [] = None"
| "gtk_main_iteration (None # ps) = gtk_main_iteration ps"
| "gtk_main_iteration (Some h # ps) = Some (h, ps)"

definition apply_handler ::
  "handler \<Rightarrow> ('st, 'h, 'fq, 'm) Control \<Rightarrow> ('st, 'h, 'fq, 'm) Control" where
  "apply_handler h c =
     (case h (in_run c, sim_is_paused c) of (r, p) \<Rightarrow> c\<lparr>in_run := r, sim_is_paused := p\<rparr>)"

text \<open>
  The surroundings of a run: the polls of the front end still to come, the terminal
  handle \<open>fp\<close> of the text front end, and, as a history of the run, the timesteps that
  the engine has completed so far, each as (trial, timestep). Console output is not
  modelled.
\<close>

record 'tty surroundings =
  gui_polls :: "handler option list"
  fp :: "'tty option"
  completed :: "(c_int \<times> c_int) list"

text \<open>
  How a part of the run ends: it returns, or it waits for ever inside
  \<open>gtk_main_iteration\<close> (with the state in which it waits), or it has no defined behaviour
  (a null pointer is dereferenced or an array is read outside its range).
\<close>

datatype 'a outcome = Returned 'a | Blocked 'a | Undefined

subsection \<open>\<open>gen_gr_sample\<close>\<close>

text \<open>
  The loop draws indices until \<open>sample_size\<close> different ones are found. It need not end
  (fewer than \<open>sample_size\<close> indices exist, or the generator never gives a new one), and
  an index outside \<open>chosen\<close> or \<open>gr_indices\<close> has no defined behaviour: both are \<open>None\<close>.
\<close>

partial_function (option) gr_sample_loop ::
  "(int \<Rightarrow> int \<Rightarrow> 'g \<Rightarrow> int \<times> 'g) \<Rightarrow> int \<Rightarrow> int \<Rightarrow> int list \<Rightarrow> bool list \<Rightarrow> int \<Rightarrow> 'g
   \<Rightarrow> int list option" where
  "gr_sample_loop rnd sample_size data_size indices chosen counter g =
     (if counter < sample_size
      then (case rnd 0 (data_size - 1) g of
              (index, g') \<Rightarrow>
                if 0 \<le> index \<and> nat index < length chosen
                then (if \<not> chosen ! nat index
                      then (if 0 \<le> counter \<and> nat counter < length indices
                            then gr_sample_loop rnd sample_size data_size
                                   (indices[nat counter := index])
                                   (chosen[nat index := True]) (counter + 1) g'
                            else None)
                      else gr_sample_loop rnd sample_size data_size indices chosen counter g')
                else None)
      else Some indices)"

definition gen_gr_sample ::
  "('h, 'fq, 'fr, 'm, 'tty, 'g) externals \<Rightarrow> int list \<Rightarrow> int \<Rightarrow> int \<Rightarrow> int list option" where
  "gen_gr_sample E indices sample_size data_size =
     gr_sample_loop (IRandom0 E) sample_size data_size indices
       (replicate (nat data_size) False) 0 (CRandomSFMT0 E 0)"

subsection \<open>One timestep\<close>

text \<open>The local accumulators of a trial: they are filled during the CS window and never read.\<close>

record trial_locals =
  goSpkCounter :: "c_int list"
  gGRGO_sum :: fexpr
  gMFGO_sum :: fexpr

definition fresh_locals :: "config \<Rightarrow> trial_locals" where
  "fresh_locals cfg =
     \<lparr>goSpkCounter = replicate (unat (num_go cfg)) 0, gGRGO_sum = FConst 0, gMFGO_sum = FConst 0\<rparr>"

text \<open>The loop \<open>for (i = 0; i < num_go; i++)\<close> over the exported Golgi arrays.\<close>

fun accumulate_go ::
  "nat list \<Rightarrow> ct_uint8_t list \<Rightarrow> fexpr list \<Rightarrow> fexpr list \<Rightarrow> trial_locals \<Rightarrow> trial_locals option" where
  "accumulate_go [] goSpks grgoG mfgoG loc = Some loc"
| "accumulate_go (i # is) goSpks grgoG mfgoG loc =
     (case nth_opt (goSpkCounter loc) i of None \<Rightarrow> None
      | Some k \<Rightarrow>
     (case nth_opt goSpks i of None \<Rightarrow> None
      | Some v \<Rightarrow>
     (case nth_opt grgoG i of None \<Rightarrow> None
      | Some gr \<Rightarrow>
     (case nth_opt mfgoG i of None \<Rightarrow> None
      | Some mf \<Rightarrow>
         accumulate_go is goSpks grgoG mfgoG
           (loc\<lparr>goSpkCounter := (goSpkCounter loc)[i := k + ucast v],
                gGRGO_sum := FAdd (gGRGO_sum loc) gr,
                gMFGO_sum := FAdd (gMFGO_sum loc) mf\<rparr>)))))"

text \<open>
  The three weights that the kernel step takes from \<open>runTrials\<close>, and the body of the
  loop over the timesteps \<open>tts\<close> of a trial. \<open>gui\<close> is the pointer to the front end that
  \<open>runTrials\<close> receives. The body delivers the US at the end of the CS window, chooses
  the mossy-fibre drive by phase, advances the kernel, updates the spike sums when a front
  end is attached, accumulates the Golgi arrays inside the CS window, and at its end gives
  the front end one chance to run an event (an event that is pending is run at once, so
  \<open>gtk_main_iteration\<close> does not wait here) or, for the text front end, to read the
  keyboard. The timestep is entered in the history when its work is done. The timestep
  \<open>tts\<close> and the bounds of the CS window are \<open>int\<close>s, and \<open>csStart + csLength\<close> and
  \<open>csStart + csPhasicSize\<close> are the 32-bit sums. The locals of
  \<open>runTrials\<close> that are written and never read (timers, \<open>PSTHCounter\<close>, \<open>rasterCounter\<close>)
  are left out.
\<close>

record weights =
  w_GOGR :: fexpr
  w_GRGO :: fexpr
  w_MFGO :: fexpr

definition timestep ::
  "('h, 'fq, 'fr, 'm, 'tty, 'g) externals \<Rightarrow> config \<Rightarrow> weights \<Rightarrow> 'gui option \<Rightarrow> c_int
   \<Rightarrow> ('st, 'h, 'fq, 'm) Control \<times> trial_locals \<times> 'tty surroundings
   \<Rightarrow> (('st, 'h, 'fq, 'm) Control \<times> trial_locals \<times> 'tty surroundings) option" where
  "timestep E cfg W gui tts x =
     (case x of (c, loc, s) \<Rightarrow>
      case simCore c of None \<Rightarrow> None | Some core \<Rightarrow>
      case mfs c of None \<Rightarrow> None | Some m \<Rightarrow>
      case mfFreq c of None \<Rightarrow> None | Some fq \<Rightarrow>
        let core1 = (if tts = csStart cfg + csLength cfg
                     then updateErrDrive E 0 (FConst 0.3) core else core);
            freq = (if sint tts < sint (csStart cfg) \<or>
                       sint tts \<ge> sint (csStart cfg + csLength cfg)
                    then getMFBG E fq
                    else if sint tts \<ge> sint (csStart cfg) \<and>
                            sint tts < sint (csStart cfg + csPhasicSize cfg)
                    then getMFFreqInCSPhasic E fq
                    else getMFInCSTonicA E fq);
            (ap, m1) = calcPoissActivity E freq (mzones core1) m;
            (isTrueMF, m2) = calcTrueMFs E (getMFBG E fq) m1;
            core2 = updateTrueMFs E isTrueMF core1;
            core3 = updateMFInput E ap core2;
            core4 = calcActivity E (w_MFGO W) (w_GOGR W) (w_GRGO W) (gogoW cfg) (spillFrac cfg)
                      core3;
            c1 = c\<lparr>mfAP := ap, mfs := Some m2, simCore := Some core4\<rparr>
        in case (if gui \<noteq> None then update_spike_sums cfg tts c1 else Some c1) of
             None \<Rightarrow> None
           | Some c2 \<Rightarrow>
        (case (if sint tts \<ge> sint (csStart cfg) \<and> sint tts < sint (csStart cfg + csLength cfg)
               then accumulate_go [0..<unat (num_go cfg)] (apGO (inputNet core4))
                      (gSum_GRGO (inputNet core4)) (gSum_MFGO (inputNet core4)) loc
               else Some loc) of
             None \<Rightarrow> None
           | Some loc' \<Rightarrow>
        (let s1 = s\<lparr>completed := completed s @ [(trial c2, tts)]\<rparr>
         in if gui \<noteq> None
            then (case gtk_events_pending (gui_polls s1) of
                    (pending, ps) \<Rightarrow>
                      if pending
                      then (case gtk_main_iteration ps of
                              None \<Rightarrow> None
                            | Some (h, ps') \<Rightarrow>
                                Some (apply_handler h c2, loc', s1\<lparr>gui_polls := ps'\<rparr>))
                      else Some (c2, loc', s1\<lparr>gui_polls := ps\<rparr>))
            else if sim_vis_mode c2 = TUI
            then Some (c2, loc', s1\<lparr>fp := process_input E (fp s1) tts (trial c2 + 1)\<rparr>)
            else Some (c2, loc', s1))))"

fun run_timesteps ::
  "('h, 'fq, 'fr, 'm, 'tty, 'g) externals \<Rightarrow> config \<Rightarrow> weights \<Rightarrow> 'gui option \<Rightarrow> c_int list
   \<Rightarrow> ('st, 'h, 'fq, 'm) Control \<times> trial_locals \<times> 'tty surroundings
   \<Rightarrow> (('st, 'h, 'fq, 'm) Control \<times> trial_locals \<times> 'tty surroundings) option" where
  "run_timesteps E cfg W gui [] x = Some x"
| "run_timesteps E cfg W gui (tts # rest) x =
     (case timestep E cfg W gui tts x of None \<Rightarrow> None
      | Some x' \<Rightarrow> run_timesteps E cfg W gui rest x')"

subsection \<open>The end of a trial and the loop over the trials\<close>

text \<open>
  The pause loop \<open>while (in_run) { if (gtk_events_pending() || sim_is_paused)
  gtk_main_iteration(); else break; }\<close>. Each round that goes on has taken an event from
  the polls, which is why the loop is well defined; it waits for ever when the engine is
  paused and no event arrives any more.
\<close>

lemma gtk_events_pending_length:
  "gtk_events_pending ps = (pending, ps') \<Longrightarrow> length ps' \<le> length ps"
  by (induction ps rule: gtk_events_pending.induct) auto

lemma gtk_main_iteration_length:
  "gtk_main_iteration ps = Some (h, ps') \<Longrightarrow> length ps' < length ps"
  by (induction ps rule: gtk_main_iteration.induct) auto

function pause_loop ::
  "('st, 'h, 'fq, 'm) Control \<times> 'tty surroundings
   \<Rightarrow> (('st, 'h, 'fq, 'm) Control \<times> 'tty surroundings) outcome" where
  "pause_loop (c, s) =
     (if in_run c
      then (case gtk_events_pending (gui_polls s) of
              (pending, ps) \<Rightarrow>
                if pending \<or> sim_is_paused c
                then (case gtk_main_iteration ps of
                        None \<Rightarrow> Blocked (c, s\<lparr>gui_polls := []\<rparr>)
                      | Some (h, ps') \<Rightarrow> pause_loop (apply_handler h c, s\<lparr>gui_polls := ps'\<rparr>))
                else Returned (c, s\<lparr>gui_polls := ps\<rparr>))
      else Returned (c, s))"
  by pat_completeness auto
termination
proof (relation "measure (\<lambda>(c, s). length (gui_polls s))")
  show "wf (measure (\<lambda>(c, s). length (gui_polls s)))" by simp
next
  fix c :: "('st, 'h, 'fq, 'm) Control" and s :: "'tty surroundings"
    and pending ps x2 h ps'
  assume "(pending, ps) = gtk_events_pending (gui_polls s)"
    and "gtk_main_iteration ps = Some x2" and "(h, ps') = x2"
  then have "length ps \<le> length (gui_polls s)" and "length ps' < length ps"
    using gtk_events_pending_length[of "gui_polls s" pending ps]
      gtk_main_iteration_length[of ps h ps'] by auto
  then show "((apply_handler h c, s\<lparr>gui_polls := ps'\<rparr>), c, s)
             \<in> measure (\<lambda>(c, s). length (gui_polls s))"
    by simp
qed

text \<open>
  The values that \<open>tts\<close> takes in \<open>for (int tts = 0; tts < trialTime; tts++)\<close>: none when
  \<open>trialTime\<close> is not positive, and otherwise 0 up to \<open>trialTime - 1\<close> (the increment never
  passes \<open>trialTime\<close>, so it does not wrap).
\<close>

definition timesteps :: "config \<Rightarrow> c_int list" where
  "timesteps cfg = map word_of_int [0..sint (trialTime cfg) - 1]"

text \<open>
  One pass of the body of \<open>while (trial < numTotalTrials && in_run)\<close>, up to the
  increment of \<open>trial\<close>: the timesteps (for the trials from \<open>homeoTuningTrials\<close> on), and
  with a front end the firing rates, the pause loop and the reset of the tallies. The
  refresh of the labels that \<open>gdk_threads_add_idle\<close> schedules touches the front end only.
\<close>

definition trial_body ::
  "('h, 'fq, 'fr, 'm, 'tty, 'g) externals \<Rightarrow> config \<Rightarrow> weights \<Rightarrow> 'gui option
   \<Rightarrow> ('st, 'h, 'fq, 'm) Control \<times> 'tty surroundings
   \<Rightarrow> (('st, 'h, 'fq, 'm) Control \<times> 'tty surroundings) outcome" where
  "trial_body E cfg W gui x =
     (case x of (c, s) \<Rightarrow>
      case (if sint (trial c) \<ge> sint (homeoTuningTrials cfg)
            then run_timesteps E cfg W gui (timesteps cfg) (c, fresh_locals cfg, s)
            else Some (c, fresh_locals cfg, s)) of
        None \<Rightarrow> Undefined
      | Some (c1, loc1, s1) \<Rightarrow>
          if gui \<noteq> None
          then (case calculate_firing_rates cfg c1 of
                  None \<Rightarrow> Undefined
                | Some c2 \<Rightarrow>
                    (case (if sim_is_paused c2 then pause_loop (c2, s1) else Returned (c2, s1)) of
                       Returned (c3, s3) \<Rightarrow> Returned (reset_spike_sums c3, s3)
                     | Blocked y \<Rightarrow> Blocked y
                     | Undefined \<Rightarrow> Undefined))
          else Returned (c1, s1))"

text \<open>
  The two \<open>int\<close> sums at the head of \<open>runTrials\<close>:
  \<open>preTrialNumber = homeoTuningTrials + granuleActDetectTrials\<close> and
  \<open>numTotalTrials = preTrialNumber + numTrainingTrials\<close>.
\<close>

definition preTrialNumber :: "config \<Rightarrow> c_int" where
  "preTrialNumber cfg = homeoTuningTrials cfg + granuleActDetectTrials cfg"

definition numTotalTrials :: "config \<Rightarrow> c_int" where
  "numTotalTrials cfg = preTrialNumber cfg + numTrainingTrials cfg"

text \<open>A counter that is below another \<open>int\<close> does not wrap when it is incremented.\<close>

lemma sint_increment:
  fixes a b :: c_int
  assumes "sint a < sint b"
  shows "sint (a + 1) = sint a + 1"
proof -
  have "sint b < 2 ^ 31" and "- (2 ^ 31) \<le> sint a"
    using sint_lt[of b] sint_ge[of a] by simp_all
  then have "signed_take_bit 31 (sint a + 1) = sint a + 1"
    using assms by (intro signed_take_bit_int_eq_self) simp_all
  then show ?thesis
    by (simp add: sint_word_ariths)
qed

text \<open>The body of a trial leaves the trial counter as it is, which the loop needs.\<close>

lemma apply_handler_trial: "trial (apply_handler h c) = trial c"
  by (simp add: apply_handler_def split: prod.splits)

lemma update_spike_sums_trial: "update_spike_sums cfg t c = Some c' \<Longrightarrow> trial c' = trial c"
  by (auto simp: update_spike_sums_def split: option.splits if_splits)

lemma calculate_firing_rates_trial:
  "calculate_firing_rates cfg c = Some c' \<Longrightarrow> trial c' = trial c"
  by (auto simp: calculate_firing_rates_def Let_def split: option.splits)

lemma reset_spike_sums_trial: "trial (reset_spike_sums c) = trial c"
  by (simp add: reset_spike_sums_def)

lemma timestep_trial:
  assumes "timestep E cfg W gui tts (c, loc, s) = Some (c', loc', s')"
  shows "trial c' = trial c \<and> completed s' = completed s @ [(trial c, tts)]"
proof -
  obtain core m fq where p: "simCore c = Some core" "mfs c = Some m" "mfFreq c = Some fq"
    using assms by (auto simp: timestep_def split: option.splits)
  show ?thesis
    using assms
    by (auto simp: timestep_def p Let_def apply_handler_trial
        dest!: update_spike_sums_trial split: option.splits if_splits prod.splits)
qed


lemma run_timesteps_log:
  "run_timesteps E cfg W gui ks (c, loc, s) = Some (c', loc', s') \<Longrightarrow>
   trial c' = trial c \<and> completed s' = completed s @ map (Pair (trial c)) ks"
proof (induction ks arbitrary: c loc s)
  case Nil
  then show ?case by simp
next
  case (Cons k ks)
  obtain c1 loc1 s1 where step: "timestep E cfg W gui k (c, loc, s) = Some (c1, loc1, s1)"
    and rest: "run_timesteps E cfg W gui ks (c1, loc1, s1) = Some (c', loc', s')"
    using Cons.prems by (auto split: option.splits)
  show ?case
    using timestep_trial[OF step] Cons.IH[OF rest] by simp
qed

lemma pause_loop_keeps:
  "pause_loop (c, s) = Returned (c', s') \<or> pause_loop (c, s) = Blocked (c', s') \<Longrightarrow>
   trial c' = trial c \<and> completed s' = completed s"
proof (induction "(c, s)" arbitrary: c s rule: pause_loop.induct)
  case (1 c s)
  show ?case
  proof (cases "in_run c")
    case False
    then show ?thesis using "1.prems" by auto
  next
    case True
    obtain pending ps where ev: "gtk_events_pending (gui_polls s) = (pending, ps)"
      by (cases "gtk_events_pending (gui_polls s)")
    show ?thesis
    proof (cases "pending \<or> sim_is_paused c")
      case False
      then show ?thesis using "1.prems" True ev by auto
    next
      case go: True
      show ?thesis
      proof (cases "gtk_main_iteration ps")
        case None
        then show ?thesis using "1.prems" True ev go by auto
      next
        case (Some hp)
        obtain h ps' where hp: "hp = (h, ps')" by (cases hp)
        have next_round: "pause_loop (apply_handler h c, s\<lparr>gui_polls := ps'\<rparr>) = Returned (c', s') \<or>
              pause_loop (apply_handler h c, s\<lparr>gui_polls := ps'\<rparr>) = Blocked (c', s')"
          using "1.prems" True ev go Some hp by auto
        have "trial c' = trial (apply_handler h c) \<and>
              completed s' = completed (s\<lparr>gui_polls := ps'\<rparr>)"
          using "1.hyps"[OF True ev[symmetric] go Some hp[symmetric] next_round] .
        then show ?thesis by (simp add: apply_handler_trial)
      qed
    qed
  qed
qed


text \<open>
  The timesteps of trial \<open>t\<close> in the history, all of them and in order (none for a trial
  before \<open>homeoTuningTrials\<close>), and those of the trials from \<open>a\<close> up to but not including
  \<open>b\<close>.
\<close>

definition trial_steps :: "config \<Rightarrow> c_int \<Rightarrow> (c_int \<times> c_int) list" where
  "trial_steps cfg t =
     (if sint t \<ge> sint (homeoTuningTrials cfg) then map (Pair t) (timesteps cfg) else [])"

definition whole_trials :: "config \<Rightarrow> c_int \<Rightarrow> c_int \<Rightarrow> (c_int \<times> c_int) list" where
  "whole_trials cfg a b =
     concat (map (\<lambda>t. trial_steps cfg (word_of_int t)) [sint a..sint b - 1])"

lemma trial_body_log:
  assumes "trial_body E cfg W gui (c, s) = Returned (c', s') \<or>
           trial_body E cfg W gui (c, s) = Blocked (c', s')"
  shows "trial c' = trial c \<and> completed s' = completed s @ trial_steps cfg (trial c)"
proof -
  obtain c1 loc1 s1 where
    steps: "(if sint (trial c) \<ge> sint (homeoTuningTrials cfg)
             then run_timesteps E cfg W gui (timesteps cfg) (c, fresh_locals cfg, s)
             else Some (c, fresh_locals cfg, s)) = Some (c1, loc1, s1)"
    using assms by (auto simp: trial_body_def split: option.splits)
  have log1: "trial c1 = trial c \<and> completed s1 = completed s @ trial_steps cfg (trial c)"
  proof (cases "sint (trial c) \<ge> sint (homeoTuningTrials cfg)")
    case True
    then show ?thesis
      using steps run_timesteps_log[of E cfg W gui "timesteps cfg" c "fresh_locals cfg" s
          c1 loc1 s1]
      by (simp add: trial_steps_def)
  next
    case False
    then show ?thesis using steps by (simp add: trial_steps_def)
  qed
  have body: "trial_body E cfg W gui (c, s) =
     (if gui \<noteq> None
      then (case calculate_firing_rates cfg c1 of
              None \<Rightarrow> Undefined
            | Some c2 \<Rightarrow>
                (case (if sim_is_paused c2 then pause_loop (c2, s1) else Returned (c2, s1)) of
                   Returned (c3, s3) \<Rightarrow> Returned (reset_spike_sums c3, s3)
                 | Blocked y \<Rightarrow> Blocked y
                 | Undefined \<Rightarrow> Undefined))
      else Returned (c1, s1))"
    unfolding trial_body_def prod.case steps option.case ..
  show ?thesis
  proof (cases "gui = None")
    case True
    then show ?thesis using assms log1 unfolding body by simp
  next
    case False
    obtain c2 where fr: "calculate_firing_rates cfg c1 = Some c2"
      using assms False unfolding body by (auto split: option.splits)
    have t2: "trial c2 = trial c1"
      using fr by (rule calculate_firing_rates_trial)
    show ?thesis
    proof (cases "sim_is_paused c2")
      case True
      have "(\<exists>c3. pause_loop (c2, s1) = Returned (c3, s') \<and> c' = reset_spike_sums c3) \<or>
            pause_loop (c2, s1) = Blocked (c', s')"
        using assms False True unfolding body
        by (auto simp: fr split: outcome.splits)
      then show ?thesis
        using pause_loop_keeps[of c2 s1 _ s'] t2 log1
        by (auto simp: reset_spike_sums_trial)
    next
      case paused: False
      then show ?thesis
        using assms False t2 log1 unfolding body
        by (auto simp: fr reset_spike_sums_trial)
    qed
  qed
qed

lemma trial_body_trial:
  "trial_body E cfg W gui (c, s) = Returned (c', s') \<Longrightarrow> trial c' = trial c"
  using trial_body_log[of E cfg W gui c s c' s'] by simp

text \<open>The loop \<open>while (trial < numTotalTrials && in_run)\<close>, with the increment of \<open>trial\<close>.\<close>

function trial_loop ::
  "('h, 'fq, 'fr, 'm, 'tty, 'g) externals \<Rightarrow> config \<Rightarrow> weights \<Rightarrow> 'gui option
   \<Rightarrow> ('st, 'h, 'fq, 'm) Control \<times> 'tty surroundings
   \<Rightarrow> (('st, 'h, 'fq, 'm) Control \<times> 'tty surroundings) outcome" where
  "trial_loop E cfg W gui (c, s) =
     (if sint (trial c) < sint (numTotalTrials cfg) \<and> in_run c
      then (case trial_body E cfg W gui (c, s) of
              Returned (c', s') \<Rightarrow> trial_loop E cfg W gui (c'\<lparr>trial := trial c' + 1\<rparr>, s')
            | Blocked y \<Rightarrow> Blocked y
            | Undefined \<Rightarrow> Undefined)
      else Returned (c, s))"
  by pat_completeness auto
termination
  by (relation "measure (\<lambda>(E, cfg, W, gui, c, s).
                   nat (sint (numTotalTrials cfg) - sint (trial c)))")
    (auto dest: trial_body_trial simp: sint_increment)

declare pause_loop.simps [simp del]

declare trial_loop.simps [simp del]

text \<open>
  Lines 407 to 541 of control.cpp: the flag is set, the trial counter is cleared, the loop
  runs, the terminal is reset and the flag is cleared.
\<close>

definition run_loop ::
  "('h, 'fq, 'fr, 'm, 'tty, 'g) externals \<Rightarrow> config \<Rightarrow> weights \<Rightarrow> 'gui option
   \<Rightarrow> ('st, 'h, 'fq, 'm) Control \<times> 'tty surroundings
   \<Rightarrow> (('st, 'h, 'fq, 'm) Control \<times> 'tty surroundings) outcome" where
  "run_loop E cfg W gui x =
     (case x of (c, s) \<Rightarrow>
      case trial_loop E cfg W gui (c\<lparr>in_run := True, trial := 0\<rparr>, s) of
        Returned (c', s') \<Rightarrow>
          Returned (c'\<lparr>in_run := False\<rparr>,
                    if sim_vis_mode c' = TUI then s'\<lparr>fp := reset_tty E (fp s')\<rparr> else s')
      | Blocked y \<Rightarrow> Blocked y
      | Undefined \<Rightarrow> Undefined)"

subsection \<open>\<open>Control::runTrials\<close>\<close>

text \<open>
  \<open>runTrials(simNum, GOGR, GRGO, MFGO, gui)\<close>: the sample of granule cells is drawn, the
  three weight arguments are assigned their constants, the terminal is prepared for the
  text front end, and the loop runs.
\<close>

definition runTrials ::
  "('h, 'fq, 'fr, 'm, 'tty, 'g) externals \<Rightarrow> config \<Rightarrow> int \<Rightarrow> fexpr \<Rightarrow> fexpr \<Rightarrow> fexpr
   \<Rightarrow> 'gui option \<Rightarrow> ('st, 'h, 'fq, 'm) Control \<times> 'tty surroundings
   \<Rightarrow> (('st, 'h, 'fq, 'm) Control \<times> 'tty surroundings) outcome" where
  "runTrials E cfg simNum GOGR GRGO MFGO gui x =
     (case x of (c, s) \<Rightarrow>
      case gen_gr_sample E (gr_indices c) 4096 (sint (num_gr cfg)) of
        None \<Rightarrow> Undefined
      | Some indices \<Rightarrow>
          (let GOGR = FConst 0.017;
               GRGO = FMul (FConst 0.0007) (FConst 0.9);
               MFGO = FMul (FConst 0.00350) (FConst 0.9);
               fp0 = None;
               fp1 = (if sim_vis_mode c = TUI then init_tty E fp0 else fp0)
           in run_loop E cfg \<lparr>w_GOGR = GOGR, w_GRGO = GRGO, w_MFGO = MFGO\<rparr> gui
                (c\<lparr>gr_indices := indices\<rparr>, s\<lparr>fp := fp1\<rparr>)))"

subsection \<open>A small run for the examples\<close>

text \<open>
  Three trials of two timesteps, populations of two cells, a kernel that does not change,
  a Poisson generator that always gives the same activity, a front end whose only event
  cancels the run, and the engine of the scenario with the tallies of these populations.
\<close>

definition tiny_cfg :: config where
  "tiny_cfg =
     \<lparr>numMZones = 2, num_mf = 2, num_gr = 2, num_go = 2, num_bc = 2, num_sc = 2,
      num_pc = 2, num_io = 2, num_nc = 2,
      homeoTuningTrials = 0, granuleActDetectTrials = 0, numTrainingTrials = 3,
      trialTime = 2, csStart = 1, csLength = 1, csPhasicSize = 1,
      gogoW = FConst 0, spillFrac = FConst 0\<rparr>"

definition toy_externals :: "(unit, unit, unit, unit, unit, int) externals" where
  "toy_externals =
     \<lparr>updateErrDrive = (\<lambda>z e core. core),
      updateTrueMFs = (\<lambda>fl core. core),
      updateMFInput = (\<lambda>ap core. core),
      calcActivity = (\<lambda>a b c d e core. core),
      getMFBG = (\<lambda>fq. ()),
      getMFFreqInCSPhasic = (\<lambda>fq. ()),
      getMFInCSTonicA = (\<lambda>fq. ()),
      calcPoissActivity = (\<lambda>fr zs m. ([1, 0], m)),
      calcTrueMFs = (\<lambda>fr m. ([True, False], m)),
      init_tty = (\<lambda>t. Some ()),
      process_input = (\<lambda>t tts tr. t),
      reset_tty = (\<lambda>t. None),
      CRandomSFMT0 = (\<lambda>seed. seed),
      IRandom0 = (\<lambda>lo hi g. (if lo \<le> g \<and> g \<le> hi then g else lo, g + 1))\<rparr>"

definition tiny_weights :: weights where
  "tiny_weights = \<lparr>w_GOGR = FConst 0, w_GRGO = FConst 0, w_MFGO = FConst 0\<rparr>"

definition cancel :: handler where
  "cancel = (\<lambda>(r, p). (False, p))"

definition tiny_control :: "(unit, unit, unit, unit) Control" where
  "tiny_control = initialize_spike_sums tiny_cfg (scenario_control\<lparr>in_run := True\<rparr>)"

definition tiny_surroundings :: "unit surroundings" where
  "tiny_surroundings = \<lparr>gui_polls = [Some cancel], fp = None, completed = []\<rparr>"

text \<open>
  Auxiliary: the small engine is ready for a timestep when it has its kernel and its
  generators and the tallies of every cell type are allocated for two cells.
\<close>

definition tiny_ready :: "(unit, unit, unit, unit) Control \<Rightarrow> bool" where
  "tiny_ready c \<longleftrightarrow>
     simCore c = Some scenario_core \<and> mfs c = Some () \<and> mfFreq c = Some () \<and>
     (\<forall>i. allocated (spike_sums c i) \<and> num_cells (spike_sums c i) = 2)"

text \<open>What the polls of the front end are after one timestep, and what its event did.\<close>

definition polls_after :: "handler option list \<Rightarrow> handler option list" where
  "polls_after ps = (case ps of [] \<Rightarrow> [] | p # rest \<Rightarrow> rest)"

definition flags_after :: "handler option list \<Rightarrow> bool \<times> bool \<Rightarrow> bool \<times> bool" where
  "flags_after ps fl = (case ps of Some h # rest \<Rightarrow> h fl | _ \<Rightarrow> fl)"

section \<open>The loops of \<open>update_spike_sums\<close> in closed form\<close>

lemma cell_ids_all: "set cell_ids = UNIV"
proof -
  have "i \<in> set cell_ids" for i
    by (cases i) (simp_all add: cell_ids_def)
  then show ?thesis by blast
qed

lemma cell_ids_distinct: "distinct cell_ids"
  by (simp add: cell_ids_def)

lemma list_all_cell_ids: "list_all P cell_ids \<longleftrightarrow> (\<forall>i. P i)"
  by (simp add: list_all_iff cell_ids_all)

lemma add_flags_0: "add_flags spk 0 acc = acc"
  by (simp add: add_flags_def)

lemma bump_counters_0: "bump_counters spk 0 cnt = cnt"
  by (simp add: bump_counters_def)

lemma length_bump_counters: "n \<le> length cnt \<Longrightarrow> length (bump_counters spk n cnt) = length cnt"
  by (simp add: bump_counters_def)

lemma add_flags_Suc: "add_flags spk n acc + ucast (spk ! n) = add_flags spk (Suc n) acc"
  by (simp add: add_flags_def)

lemma bump_counters_Suc:
  assumes "n < length cnt"
  shows "(bump_counters spk n cnt)[n := bump_counters spk n cnt ! n + ucast (spk ! n)]
         = bump_counters spk (Suc n) cnt"
proof (rule nth_equalityI)
  show "length ((bump_counters spk n cnt)[n := bump_counters spk n cnt ! n + ucast (spk ! n)])
        = length (bump_counters spk (Suc n) cnt)"
    using assms by (simp add: bump_counters_def)
next
  fix i
  assume "i < length ((bump_counters spk n cnt)
                        [n := bump_counters spk n cnt ! n + ucast (spk ! n)])"
  then have i: "i < length cnt"
    using assms by (simp add: bump_counters_def)
  show "(bump_counters spk n cnt)[n := bump_counters spk n cnt ! n + ucast (spk ! n)] ! i
        = bump_counters spk (Suc n) cnt ! i"
    using assms i
    by (auto simp: bump_counters_def nth_append nth_list_update less_Suc_eq simp del: upt_Suc)
qed

lemma cs_add_cells_upt:
  "n \<le> length spk \<Longrightarrow> n \<le> length (cs_spike_counter s) \<Longrightarrow> m \<le> n \<Longrightarrow>
   cs_add_cells [m..<n] spk
     (s\<lparr>cs_spike_sum := add_flags spk m (cs_spike_sum s),
        cs_spike_counter := bump_counters spk m (cs_spike_counter s)\<rparr>)
   = Some (s\<lparr>cs_spike_sum := add_flags spk n (cs_spike_sum s),
             cs_spike_counter := bump_counters spk n (cs_spike_counter s)\<rparr>)"
proof (induction "n - m" arbitrary: m)
  case 0
  then show ?case by simp
next
  case (Suc d)
  then have m: "m < n" by simp
  have len: "length (bump_counters spk m (cs_spike_counter s)) = length (cs_spike_counter s)"
    using Suc.prems m by (simp add: length_bump_counters)
  have unfold: "[m..<n] = m # [Suc m..<n]"
    using m by (simp add: upt_conv_Cons)
  have rest: "cs_add_cells [Suc m..<n] spk
     (s\<lparr>cs_spike_sum := add_flags spk (Suc m) (cs_spike_sum s),
        cs_spike_counter := bump_counters spk (Suc m) (cs_spike_counter s)\<rparr>)
   = Some (s\<lparr>cs_spike_sum := add_flags spk n (cs_spike_sum s),
             cs_spike_counter := bump_counters spk n (cs_spike_counter s)\<rparr>)"
    using Suc.hyps(1)[of "Suc m"] Suc.hyps(2) Suc.prems m by simp
  show ?case
    using Suc.prems m rest
    by (simp add: unfold nth_opt_def len add_flags_Suc bump_counters_Suc)
qed

lemma non_cs_add_cells_upt:
  "n \<le> length spk \<Longrightarrow> n \<le> length (non_cs_spike_counter s) \<Longrightarrow> m \<le> n \<Longrightarrow>
   non_cs_add_cells [m..<n] spk
     (s\<lparr>non_cs_spike_sum := add_flags spk m (non_cs_spike_sum s),
        non_cs_spike_counter := bump_counters spk m (non_cs_spike_counter s)\<rparr>)
   = Some (s\<lparr>non_cs_spike_sum := add_flags spk n (non_cs_spike_sum s),
             non_cs_spike_counter := bump_counters spk n (non_cs_spike_counter s)\<rparr>)"
proof (induction "n - m" arbitrary: m)
  case 0
  then show ?case by simp
next
  case (Suc d)
  then have m: "m < n" by simp
  have len: "length (bump_counters spk m (non_cs_spike_counter s))
             = length (non_cs_spike_counter s)"
    using Suc.prems m by (simp add: length_bump_counters)
  have unfold: "[m..<n] = m # [Suc m..<n]"
    using m by (simp add: upt_conv_Cons)
  have rest: "non_cs_add_cells [Suc m..<n] spk
     (s\<lparr>non_cs_spike_sum := add_flags spk (Suc m) (non_cs_spike_sum s),
        non_cs_spike_counter := bump_counters spk (Suc m) (non_cs_spike_counter s)\<rparr>)
   = Some (s\<lparr>non_cs_spike_sum := add_flags spk n (non_cs_spike_sum s),
             non_cs_spike_counter := bump_counters spk n (non_cs_spike_counter s)\<rparr>)"
    using Suc.hyps(1)[of "Suc m"] Suc.hyps(2) Suc.prems m by simp
  show ?case
    using Suc.prems m rest
    by (simp add: unfold nth_opt_def len add_flags_Suc bump_counters_Suc)
qed

lemma cs_add_cells_tally:
  assumes "allocated s" and "covers spk s"
  shows "cs_add_cells [0..<unat (num_cells s)] spk s = Some (tally_cs spk s)"
  using cs_add_cells_upt[of "unat (num_cells s)" spk s 0] assms
  by (simp add: allocated_def covers_def tally_cs_def add_flags_0 bump_counters_0)

lemma non_cs_add_cells_tally:
  assumes "allocated s" and "covers spk s"
  shows "non_cs_add_cells [0..<unat (num_cells s)] spk s = Some (tally_non_cs spk s)"
  using non_cs_add_cells_upt[of "unat (num_cells s)" spk s 0] assms
  by (simp add: allocated_def covers_def tally_non_cs_def add_flags_0 bump_counters_0)

lemma cs_add_types_tally:
  "distinct js \<Longrightarrow> \<forall>i\<in>set js. allocated (ss i) \<and> covers (spk i) (ss i) \<Longrightarrow>
   cs_add_types js spk ss = Some (\<lambda>i. if i \<in> set js then tally_cs (spk i) (ss i) else ss i)"
proof (induction js arbitrary: ss)
  case Nil
  then show ?case by simp
next
  case (Cons j js)
  have head: "cs_add_cells [0..<unat (num_cells (ss j))] (spk j) (ss j)
              = Some (tally_cs (spk j) (ss j))"
    using Cons.prems by (simp add: cs_add_cells_tally)
  have tail: "cs_add_types js spk (ss(j := tally_cs (spk j) (ss j)))
     = Some (\<lambda>i. if i \<in> set js then tally_cs (spk i) ((ss(j := tally_cs (spk j) (ss j))) i)
                  else (ss(j := tally_cs (spk j) (ss j))) i)"
    using Cons.prems by (intro Cons.IH) auto
  show ?case
    using Cons.prems by (auto simp: head tail)
qed

lemma non_cs_add_types_tally:
  "distinct js \<Longrightarrow> \<forall>i\<in>set js. allocated (ss i) \<and> covers (spk i) (ss i) \<Longrightarrow>
   non_cs_add_types js spk ss
   = Some (\<lambda>i. if i \<in> set js then tally_non_cs (spk i) (ss i) else ss i)"
proof (induction js arbitrary: ss)
  case Nil
  then show ?case by simp
next
  case (Cons j js)
  have head: "non_cs_add_cells [0..<unat (num_cells (ss j))] (spk j) (ss j)
              = Some (tally_non_cs (spk j) (ss j))"
    using Cons.prems by (simp add: non_cs_add_cells_tally)
  have tail: "non_cs_add_types js spk (ss(j := tally_non_cs (spk j) (ss j)))
     = Some (\<lambda>i. if i \<in> set js
                  then tally_non_cs (spk i) ((ss(j := tally_non_cs (spk j) (ss j))) i)
                  else (ss(j := tally_non_cs (spk j) (ss j))) i)"
    using Cons.prems by (intro Cons.IH) auto
  show ?case
    using Cons.prems by (auto simp: head tail)
qed

lemma update_spike_sums_closed:
  assumes "gather_cell_spikes c = Some spk" and "tracker_ready spk (spike_sums c)"
  shows "update_spike_sums cfg t c =
     Some (c\<lparr>cell_spikes := spk,
             spike_sums :=
               (if sint (csStart cfg) \<le> sint t \<and> sint t < sint (csStart cfg + csLength cfg)
                then (\<lambda>i. tally_cs (spk i) (spike_sums c i))
                else if sint t < sint (csStart cfg)
                then (\<lambda>i. tally_non_cs (spk i) (spike_sums c i))
                else spike_sums c)\<rparr>)"
proof -
  have ready: "\<forall>i\<in>set cell_ids. allocated (spike_sums c i) \<and> covers (spk i) (spike_sums c i)"
    using assms(2) by (simp add: tracker_ready_def list_all_iff)
  have cs: "cs_add_types cell_ids spk (spike_sums c)
            = Some (\<lambda>i. tally_cs (spk i) (spike_sums c i))"
    using cs_add_types_tally[OF cell_ids_distinct ready] by (simp add: cell_ids_all)
  have non_cs: "non_cs_add_types cell_ids spk (spike_sums c)
            = Some (\<lambda>i. tally_non_cs (spk i) (spike_sums c i))"
    using non_cs_add_types_tally[OF cell_ids_distinct ready] by (simp add: cell_ids_all)
  show ?thesis
    by (simp add: update_spike_sums_def assms(1) cs non_cs)
qed

text \<open>The 32-bit sum of two \<open>int\<close>s is their sum when that is an \<open>int\<close>.\<close>

lemma sint_plus_in_range:
  fixes a b :: c_int
  assumes "- (2 ^ 31) \<le> sint a + sint b" and "sint a + sint b < 2 ^ 31"
  shows "sint (a + b) = sint a + sint b"
proof -
  have "signed_take_bit 31 (sint a + sint b) = sint a + sint b"
    using assms by (intro signed_take_bit_int_eq_self) simp_all
  then show ?thesis
    by (simp add: sint_word_ariths)
qed

text \<open>The engine of the scenario exports the spikes of the scenario and is ready to tally.\<close>

lemma scenario_gather: "gather_cell_spikes scenario_control = Some scenario_spikes"
  by (simp add: gather_cell_spikes_def export_spikes_def scenario_control_def scenario_core_def
      initialize_spike_sums_def scenario_spikes_def)

lemma scenario_ready: "tracker_ready scenario_spikes (spike_sums scenario_control)"
  by (simp add: tracker_ready_def cell_ids_def allocated_def covers_def scenario_control_def
      initialize_spike_sums_def scenario_spikes_def population_def scenario_cfg_def)

section \<open>Phase partition of the spike recording\<close>

text \<open>
  Claim C3 (phase partition). Let the CS window be \<open>[csStart, csStart + csLength)\<close> with
  \<open>csLength \<ge> 0\<close> and with an end \<open>csStart + csLength\<close> that is an \<open>int\<close> (at most
  \<open>2^31 - 1\<close>, so that the 32-bit sum of the program is the end of the window), and let
  the tallies be allocated and the exported spike arrays cover every population. Then a
  spike-sum update at timestep \<open>t\<close> returns, it changes nothing of the engine but the
  exported spike arrays and the tallies, and
  for \<open>t < csStart\<close> it adds each cell's flag to the non-CS sum and to that cell's
  non-CS counter and leaves the CS sum and counters as they were;
  for \<open>t\<close> inside the window it adds each cell's flag to the CS sum and counter and
  leaves the non-CS sum and counters as they were;
  for \<open>t \<ge> csStart + csLength\<close> it changes no tally at all.
\<close>

theorem phase_partition:
  assumes "0 \<le> sint (csLength cfg)"
    and "sint (csStart cfg) + sint (csLength cfg) < 2 ^ 31"
    and "gather_cell_spikes c = Some spk"
    and "tracker_ready spk (spike_sums c)"
  shows "\<exists>c'. update_spike_sums cfg t c = Some c' \<and>
     c' = c\<lparr>cell_spikes := spk, spike_sums := spike_sums c'\<rparr> \<and>
     (sint t < sint (csStart cfg) \<longrightarrow>
        (\<forall>i. spike_sums c' i = tally_non_cs (spk i) (spike_sums c i) \<and>
             cs_spike_sum (spike_sums c' i) = cs_spike_sum (spike_sums c i) \<and>
             cs_spike_counter (spike_sums c' i) = cs_spike_counter (spike_sums c i))) \<and>
     (sint (csStart cfg) \<le> sint t \<and> sint t < sint (csStart cfg) + sint (csLength cfg) \<longrightarrow>
        (\<forall>i. spike_sums c' i = tally_cs (spk i) (spike_sums c i) \<and>
             non_cs_spike_sum (spike_sums c' i) = non_cs_spike_sum (spike_sums c i) \<and>
             non_cs_spike_counter (spike_sums c' i) = non_cs_spike_counter (spike_sums c i))) \<and>
     (sint (csStart cfg) + sint (csLength cfg) \<le> sint t \<longrightarrow> spike_sums c' = spike_sums c)"
proof -
  have "- (2 ^ 31) \<le> sint (csStart cfg)"
    using sint_ge[of "csStart cfg"] by simp
  then have "- (2 ^ 31) \<le> sint (csStart cfg) + sint (csLength cfg)"
    using assms(1) by linarith
  then have window_end: "sint (csStart cfg + csLength cfg) = sint (csStart cfg) + sint (csLength cfg)"
    using assms(2) by (rule sint_plus_in_range)
  show ?thesis
    using assms(1)
    by (simp add: update_spike_sums_closed[OF assms(3,4)] window_end tally_cs_def
        tally_non_cs_def)
qed

lemma tally_MF: "tally_non_cs [1, 1, 0, 1] (spike_sums scenario_control MF)
   = \<lparr>num_cells = 4, non_cs_spike_sum = 3, cs_spike_sum = 0,
      non_cs_spike_counter = [1, 1, 0, 1], cs_spike_counter = [0, 0, 0, 0]\<rparr>"
  apply (simp add: tally_non_cs_def add_flags_def bump_counters_def scenario_control_def
      initialize_spike_sums_def population_def scenario_cfg_def)
  apply (simp add: eval_nat_numeral)
  done

theorem phase_partition_witness:
  "0 \<le> sint (csLength scenario_cfg) \<and>
   sint (csStart scenario_cfg) + sint (csLength scenario_cfg) < 2 ^ 31 \<and>
   gather_cell_spikes scenario_control = Some scenario_spikes \<and>
   tracker_ready scenario_spikes (spike_sums scenario_control) \<and>
   (\<exists>c'. update_spike_sums scenario_cfg 3 scenario_control = Some c' \<and>
         non_cs_spike_sum (spike_sums c' MF) = 3 \<and>
         non_cs_spike_counter (spike_sums c' MF) = [1, 1, 0, 1] \<and>
         cs_spike_sum (spike_sums c' MF) = 0 \<and>
         cs_spike_counter (spike_sums c' MF) = [0, 0, 0, 0])"
proof -
  have len: "0 \<le> sint (csLength scenario_cfg)"
    by (simp add: scenario_cfg_def)
  have window: "sint (csStart scenario_cfg) + sint (csLength scenario_cfg) < 2 ^ 31"
    by (simp add: scenario_cfg_def)
  obtain c' where c': "update_spike_sums scenario_cfg 3 scenario_control = Some c'"
    and pre: "sint (3 :: c_int) < sint (csStart scenario_cfg) \<longrightarrow>
        (\<forall>i. spike_sums c' i = tally_non_cs (scenario_spikes i) (spike_sums scenario_control i) \<and>
             cs_spike_sum (spike_sums c' i) = cs_spike_sum (spike_sums scenario_control i) \<and>
             cs_spike_counter (spike_sums c' i) = cs_spike_counter (spike_sums scenario_control i))"
    using phase_partition[OF len window scenario_gather scenario_ready, of 3] by blast
  have before: "sint (3 :: c_int) < sint (csStart scenario_cfg)"
    by (simp add: scenario_cfg_def)
  have "spike_sums c' MF = tally_non_cs (scenario_spikes MF) (spike_sums scenario_control MF)"
    using pre before by blast
  then have "spike_sums c' MF = \<lparr>num_cells = 4, non_cs_spike_sum = 3, cs_spike_sum = 0,
      non_cs_spike_counter = [1, 1, 0, 1], cs_spike_counter = [0, 0, 0, 0]\<rparr>"
    by (simp add: scenario_spikes_def tally_MF)
  then show ?thesis
    using len window scenario_gather scenario_ready c' by simp
qed

text \<open>
  The bound on the end of the window is needed: a window that starts at the largest \<open>int\<close>
  has the 32-bit end \<open>- 2^31\<close>, and an update at its first timestep tallies nothing.
\<close>

lemma window_end_wraps:
  "sint (csStart (scenario_cfg\<lparr>csStart := 2147483647, csLength := 1\<rparr>)
         + csLength (scenario_cfg\<lparr>csStart := 2147483647, csLength := 1\<rparr>)) = - 2147483648 \<and>
   update_spike_sums (scenario_cfg\<lparr>csStart := 2147483647, csLength := 1\<rparr>) 2147483647
     scenario_control
   = Some (scenario_control\<lparr>cell_spikes := scenario_spikes\<rparr>)"
proof -
  have e: "sint (2147483647 + 1 :: c_int) = - 2147483648"
    by simp
  show ?thesis
    using e
    by (simp add: update_spike_sums_closed[OF scenario_gather scenario_ready])
qed

section \<open>Conservation of the spike sums\<close>

lemma unat_sum_list_word:
  "sum_list (map unat ws) < 2 ^ LENGTH('a) \<Longrightarrow>
   unat (sum_list ws :: 'a::len word) = sum_list (map unat ws)"
proof (induction ws)
  case Nil
  then show ?case by simp
next
  case (Cons w ws)
  then have "unat (sum_list ws) = sum_list (map unat ws)" by simp
  moreover have "unat w + unat (sum_list ws) < 2 ^ LENGTH('a)"
    using Cons.prems calculation by simp
  ultimately show ?case
    by (simp add: unat_add_lem[THEN iffD1])
qed

lemma unat_flag64: "unat (ucast (v :: ct_uint8_t) :: ct_uint64_t) = unat v"
proof -
  have "unat v < 2 ^ 8" using unsigned_less[of v] by simp
  then have "unat v < 2 ^ 64" by simp
  then show ?thesis by (simp add: unsigned_ucast_eq take_bit_nat_eq_self)
qed

lemma unat_flag32: "unat (ucast (v :: ct_uint8_t) :: ct_uint32_t) = unat v"
proof -
  have "unat v < 2 ^ 8" using unsigned_less[of v] by simp
  then have "unat v < 2 ^ 32" by simp
  then show ?thesis by (simp add: unsigned_ucast_eq take_bit_nat_eq_self)
qed

lemma flag_le_1: "(v :: ct_uint8_t) \<le> 1 \<Longrightarrow> unat v \<le> Suc 0"
  by (simp add: word_le_nat_alt)

lemma sum_flags_le:
  fixes spk :: "ct_uint8_t list"
  assumes "n \<le> length spk" and "list_all (\<lambda>v. v \<le> 1) (take n spk)"
  shows "sum_list (map (\<lambda>j. unat (spk ! j)) [0..<n]) \<le> n"
proof -
  have "\<forall>j<n. unat (spk ! j) \<le> 1"
    using assms by (auto simp: list_all_length intro!: flag_le_1)
  then have "sum_list (map (\<lambda>j. unat (spk ! j)) [0..<n]) \<le> sum_list (map (\<lambda>j. 1) [0..<n])"
    by (intro sum_list_mono) auto
  then show ?thesis by (simp add: sum_list_triv)
qed

lemma sum_counters_le:
  assumes "list_all (\<lambda>x. unat x \<le> m) cnt"
  shows "sum_list (map unat cnt) \<le> length cnt * m"
  using assms by (induction cnt) auto


lemma tally_ok_zero: "tally_ok 0 n 0 (replicate n 0)"
  by (simp add: tally_ok_def list_all_length)

lemma tally_ok_mono: "tally_ok m n acc cnt \<Longrightarrow> m \<le> m' \<Longrightarrow> tally_ok m' n acc cnt"
  by (auto simp: tally_ok_def list_all_length intro: le_trans)

lemma tally_ok_step:
  assumes ok: "tally_ok m n acc cnt"
    and n: "n < 2 ^ 32" and m: "Suc m < 2 ^ 32"
    and cover: "n \<le> length spk" and flags: "list_all (\<lambda>v. v \<le> 1) (take n spk)"
  shows "tally_ok (Suc m) n (add_flags spk n acc) (bump_counters spk n cnt)"
proof -
  have len: "length cnt = n" and small: "\<forall>j<n. unat (cnt ! j) \<le> m"
    and acc: "unat acc = sum_list (map unat cnt)"
    using ok by (auto simp: tally_ok_def list_all_length)
  have flag: "\<forall>j<n. unat (spk ! j) \<le> Suc 0"
    using cover flags by (auto simp: list_all_length intro!: flag_le_1)
  have bump: "bump_counters spk n cnt = map (\<lambda>j. cnt ! j + ucast (spk ! j)) [0..<n]"
    using len by (simp add: bump_counters_def)
  have each: "unat (cnt ! j + ucast (spk ! j)) = unat (cnt ! j) + unat (spk ! j)" if "j < n" for j
  proof -
    have "unat (cnt ! j) + unat (spk ! j) \<le> Suc m"
      using small[rule_format, OF that] flag[rule_format, OF that] by linarith
    then have "unat (cnt ! j) + unat (ucast (spk ! j) :: ct_uint32_t) < 2 ^ LENGTH(32)"
      using m by (simp add: unat_flag32)
    then show ?thesis
      by (simp add: unat_add_lem[THEN iffD1] unat_flag32)
  qed
  have unats: "map unat (bump_counters spk n cnt)
               = map (\<lambda>j. unat (cnt ! j) + unat (spk ! j)) [0..<n]"
    using each by (simp add: bump)
  have bound: "list_all (\<lambda>x. unat x \<le> Suc m) (bump_counters spk n cnt)"
  proof -
    have "unat (cnt ! j + ucast (spk ! j)) \<le> Suc m" if "j < n" for j
      using each[OF that] small[rule_format, OF that] flag[rule_format, OF that] by linarith
    then show ?thesis by (simp add: bump list_all_length)
  qed
  have nth_cnt: "map (\<lambda>j. unat (cnt ! j)) [0..<n] = map unat cnt"
    using len by (intro nth_equalityI) auto
  have total: "sum_list (map unat (bump_counters spk n cnt))
               = sum_list (map unat cnt) + sum_list (map (\<lambda>j. unat (spk ! j)) [0..<n])"
    by (simp add: unats sum_list_addf nth_cnt)
  have F: "sum_list (map (\<lambda>j. unat (spk ! j)) [0..<n]) \<le> n"
    using cover flags by (rule sum_flags_le)
  have C: "sum_list (map unat cnt) \<le> n * m"
    using sum_counters_le[of m cnt] ok by (simp add: tally_ok_def)
  have "n * Suc m \<le> (2 ^ 32 - 1) * (2 ^ 32 - 1)"
    using n m by (intro mult_le_mono) auto
  also have "\<dots> < (2 ^ 64 :: nat)" by simp
  finally have prod: "n * Suc m < 2 ^ 64" .
  have room: "sum_list (map unat cnt) + sum_list (map (\<lambda>j. unat (spk ! j)) [0..<n]) < 2 ^ 64"
    using F C prod by simp
  have W: "unat (sum_list (map (\<lambda>j. ucast (spk ! j)) [0..<n]) :: ct_uint64_t)
           = sum_list (map (\<lambda>j. unat (spk ! j)) [0..<n])"
  proof -
    have "sum_list (map unat (map (\<lambda>j. ucast (spk ! j) :: ct_uint64_t) [0..<n]))
          = sum_list (map (\<lambda>j. unat (spk ! j)) [0..<n])"
      by (simp add: comp_def unat_flag64)
    moreover have "sum_list (map (\<lambda>j. unat (spk ! j)) [0..<n]) < 2 ^ LENGTH(64)"
      using room by simp
    ultimately show ?thesis
      using unat_sum_list_word[of "map (\<lambda>j. ucast (spk ! j) :: ct_uint64_t) [0..<n]"]
      by simp
  qed
  have "unat acc + unat (sum_list (map (\<lambda>j. ucast (spk ! j)) [0..<n]) :: ct_uint64_t)
        < 2 ^ LENGTH(64)"
    using room by (simp add: W acc)
  then have "unat (add_flags spk n acc)
        = unat acc + sum_list (map (\<lambda>j. unat (spk ! j)) [0..<n])"
    by (simp add: add_flags_def unat_add_lem[THEN iffD1] W)
  then have sum: "unat (add_flags spk n acc) = sum_list (map unat (bump_counters spk n cnt))"
    by (simp add: total acc)
  show ?thesis
    using len bound sum by (simp add: tally_ok_def bump)
qed

lemma tallies_ok_init: "tallies_ok cfg 0 (spike_sums (initialize_spike_sums cfg c))"
  by (simp add: tallies_ok_def initialize_spike_sums_def tally_ok_zero)

lemma zero_fill_all: "length xs = n \<Longrightarrow> zero_fill n xs = replicate n 0"
  by (simp add: zero_fill_def)

lemma tallies_ok_reset:
  assumes "tallies_ok cfg m (spike_sums c)"
  shows "tallies_ok cfg 0 (spike_sums (reset_spike_sums c))"
proof -
  have "length (cs_spike_counter (spike_sums c i)) = unat (population cfg i)"
    and "length (non_cs_spike_counter (spike_sums c i)) = unat (population cfg i)"
    and "num_cells (spike_sums c i) = population cfg i" for i
    using assms by (simp_all add: tallies_ok_def tally_ok_def)
  then show ?thesis
    by (simp add: tallies_ok_def reset_spike_sums_def zero_fill_all tally_ok_zero)
qed

lemma tallies_ok_ready:
  assumes "tallies_ok cfg m ss" and "binary_flags cfg spk"
  shows "tracker_ready spk ss"
  using assms
  by (simp add: tallies_ok_def tally_ok_def binary_flags_def tracker_ready_def
      list_all_cell_ids allocated_def covers_def)

lemma tallies_ok_update:
  assumes ok: "tallies_ok cfg m (spike_sums c)"
    and m: "Suc m < 2 ^ 32"
    and spk: "export_spikes mf core = Some spk"
    and flags: "binary_flags cfg spk"
  shows "\<exists>c'. update_spike_sums cfg t (c\<lparr>mfAP := mf, simCore := Some core\<rparr>) = Some c' \<and>
              tallies_ok cfg (Suc m) (spike_sums c')"
proof -
  let ?c = "c\<lparr>mfAP := mf, simCore := Some core\<rparr>"
  have gather: "gather_cell_spikes ?c = Some spk"
    by (simp add: gather_cell_spikes_def spk)
  have ready: "tracker_ready spk (spike_sums ?c)"
    using tallies_ok_ready[OF ok flags] by simp
  have n: "unat (population cfg i) < 2 ^ 32" for i
    using unsigned_less[of "population cfg i"] by simp
  have cover: "unat (population cfg i) \<le> length (spk i)"
    and bin: "list_all (\<lambda>v. v \<le> 1) (take (unat (population cfg i)) (spk i))" for i
    using flags by (simp_all add: binary_flags_def list_all_cell_ids)
  have cells: "num_cells (spike_sums c i) = population cfg i"
    and cs: "tally_ok m (unat (population cfg i)) (cs_spike_sum (spike_sums c i))
               (cs_spike_counter (spike_sums c i))"
    and non_cs: "tally_ok m (unat (population cfg i)) (non_cs_spike_sum (spike_sums c i))
               (non_cs_spike_counter (spike_sums c i))" for i
    using ok by (simp_all add: tallies_ok_def)
  have cs': "tally_ok (Suc m) (unat (population cfg i))
               (add_flags (spk i) (unat (population cfg i)) (cs_spike_sum (spike_sums c i)))
               (bump_counters (spk i) (unat (population cfg i))
                  (cs_spike_counter (spike_sums c i)))" for i
    by (rule tally_ok_step[OF cs n m cover bin])
  have non_cs': "tally_ok (Suc m) (unat (population cfg i))
               (add_flags (spk i) (unat (population cfg i)) (non_cs_spike_sum (spike_sums c i)))
               (bump_counters (spk i) (unat (population cfg i))
                  (non_cs_spike_counter (spike_sums c i)))" for i
    by (rule tally_ok_step[OF non_cs n m cover bin])
  have cs_keep: "tally_ok (Suc m) (unat (population cfg i)) (cs_spike_sum (spike_sums c i))
               (cs_spike_counter (spike_sums c i))" for i
    by (rule tally_ok_mono[OF cs]) simp
  have non_cs_keep: "tally_ok (Suc m) (unat (population cfg i))
               (non_cs_spike_sum (spike_sums c i)) (non_cs_spike_counter (spike_sums c i))" for i
    by (rule tally_ok_mono[OF non_cs]) simp
  show ?thesis
    by (simp add: update_spike_sums_closed[OF gather ready] tallies_ok_def tally_cs_def
        tally_non_cs_def cells cs' non_cs' cs_keep non_cs_keep)
qed

lemma tallies_ok_run:
  "tallies_ok cfg m (spike_sums c) \<Longrightarrow> recordable cfg m ops \<Longrightarrow>
   \<exists>c' m'. run_ops cfg ops c = Some c' \<and> tallies_ok cfg m' (spike_sums c')"
proof (induction ops arbitrary: m c)
  case Nil
  then show ?case by auto
next
  case (Cons op ops)
  show ?case
  proof (cases op)
    case Reset
    have "tallies_ok cfg 0 (spike_sums (reset_spike_sums c))"
      using Cons.prems(1) by (rule tallies_ok_reset)
    moreover have "recordable cfg 0 ops"
      using Cons.prems(2) Reset by simp
    ultimately show ?thesis
      using Cons.IH[of 0 "reset_spike_sums c"] Reset by simp
  next
    case (Record t mf core)
    have m: "Suc m < 2 ^ 32" and rest: "recordable cfg (Suc m) ops"
      using Cons.prems(2) Record by simp_all
    obtain spk where spk: "export_spikes mf core = Some spk" and flags: "binary_flags cfg spk"
      using Cons.prems(2) Record by (auto split: option.splits)
    obtain c1 where c1: "update_spike_sums cfg t (c\<lparr>mfAP := mf, simCore := Some core\<rparr>) = Some c1"
      and ok1: "tallies_ok cfg (Suc m) (spike_sums c1)"
      using tallies_ok_update[OF Cons.prems(1) m spk flags] by blast
    show ?thesis
      using Cons.IH[OF ok1 rest] Record c1 by simp
  qed
qed

text \<open>
  Claim C4 (conservation). From the initialised tallies, every recordable sequence of
  spike-sum updates and resets runs to its end, and afterwards, for every cell type, the
  CS sum is the sum of the CS counters and the non-CS sum is the sum of the non-CS
  counters, as unsigned numbers. (Recordable: the flags are 0 or 1 and cover every
  population, and fewer than \<open>2^32\<close> updates follow one another without a reset, so that
  no 32-bit counter wraps.)
\<close>

theorem spike_sum_conservation:
  assumes "recordable cfg 0 ops"
  shows "\<exists>c'. run_ops cfg ops (initialize_spike_sums cfg c) = Some c' \<and>
     (\<forall>i. unat (cs_spike_sum (spike_sums c' i))
           = sum_list (map unat (cs_spike_counter (spike_sums c' i))) \<and>
          unat (non_cs_spike_sum (spike_sums c' i))
           = sum_list (map unat (non_cs_spike_counter (spike_sums c' i))))"
proof -
  obtain c' m' where "run_ops cfg ops (initialize_spike_sums cfg c) = Some c'"
    and "tallies_ok cfg m' (spike_sums c')"
    using tallies_ok_run[OF tallies_ok_init assms] by blast
  then show ?thesis
    by (auto simp: tallies_ok_def tally_ok_def)
qed

lemma scenario_recordable: "recordable scenario_cfg 0 scenario_ops"
  by (simp add: scenario_ops_def export_spikes_def scenario_core_def binary_flags_def
      cell_ids_def population_def scenario_cfg_def)

theorem spike_sum_conservation_witness:
  "recordable scenario_cfg 0 scenario_ops \<and>
   (\<exists>c'. run_ops scenario_cfg scenario_ops (initialize_spike_sums scenario_cfg scenario_control)
          = Some c' \<and>
     (\<forall>i. unat (cs_spike_sum (spike_sums c' i))
           = sum_list (map unat (cs_spike_counter (spike_sums c' i))) \<and>
          unat (non_cs_spike_sum (spike_sums c' i))
           = sum_list (map unat (non_cs_spike_counter (spike_sums c' i)))))"
  using spike_sum_conservation[OF scenario_recordable, of scenario_control] scenario_recordable
  by simp


section \<open>The statistics read zone 0 only\<close>

lemma export_spikes_zone0:
  assumes "inputNet k = inputNet k'" and "mzones k = z0 # zs" and "mzones k' = z0 # zs'"
  shows "export_spikes mf k = export_spikes mf k'"
  using assms by (simp add: export_spikes_def)

lemma update_spike_sums_core:
  assumes "export_spikes (mfAP c) k = export_spikes (mfAP c) k'"
  shows "update_spike_sums cfg t (c\<lparr>simCore := Some k\<rparr>)
         = map_option (\<lambda>d. d\<lparr>simCore := Some k\<rparr>)
             (update_spike_sums cfg t (c\<lparr>simCore := Some k'\<rparr>))"
  using assms
  by (simp add: update_spike_sums_def gather_cell_spikes_def split: option.splits)

lemma calculate_firing_rates_core:
  "calculate_firing_rates cfg (d\<lparr>simCore := x\<rparr>)
   = map_option (\<lambda>e. e\<lparr>simCore := x\<rparr>) (calculate_firing_rates cfg d)"
  by (simp add: calculate_firing_rates_def split: option.splits)

text \<open>
  Claim C10 (zone-0-only statistics). Two kernels with the same input network and the
  same zone 0, whatever their other zones are and however many there are, give the same
  result of a spike-sum update (the same tallies and the same spike arrays, or an
  undefined result for both), and the same firing rates when the rates are computed after
  the update: the basket, Purkinje, inferior-olive and nucleus arrays are read from zone 0
  only.
\<close>

theorem zone0_only_statistics:
  assumes "inputNet k = inputNet k'" and "mzones k = z0 # zs" and "mzones k' = z0 # zs'"
  shows "map_option (\<lambda>d. (spike_sums d, cell_spikes d))
           (update_spike_sums cfg t (c\<lparr>simCore := Some k\<rparr>))
       = map_option (\<lambda>d. (spike_sums d, cell_spikes d))
           (update_spike_sums cfg t (c\<lparr>simCore := Some k'\<rparr>)) \<and>
     map_option firing_rates
           (Option.bind (update_spike_sums cfg t (c\<lparr>simCore := Some k\<rparr>))
              (calculate_firing_rates cfg))
       = map_option firing_rates
           (Option.bind (update_spike_sums cfg t (c\<lparr>simCore := Some k'\<rparr>))
              (calculate_firing_rates cfg))"
proof -
  have same: "export_spikes (mfAP c) k = export_spikes (mfAP c) k'"
    using assms by (rule export_spikes_zone0)
  show ?thesis
  proof (cases "update_spike_sums cfg t (c\<lparr>simCore := Some k'\<rparr>)")
    case None
    then show ?thesis
      by (simp add: update_spike_sums_core[OF same])
  next
    case (Some d)
    then show ?thesis
      by (simp add: update_spike_sums_core[OF same] calculate_firing_rates_core
          option.map_comp comp_def)
  qed
qed

lemma scenario_update_12:
  "update_spike_sums scenario_cfg 12 scenario_control
   = Some (scenario_control\<lparr>cell_spikes := scenario_spikes,
        spike_sums := (\<lambda>i. tally_cs (scenario_spikes i) (spike_sums scenario_control i))\<rparr>)"
  by (simp add: update_spike_sums_closed[OF scenario_gather scenario_ready] scenario_cfg_def)

theorem zone0_only_statistics_witness:
  "inputNet scenario_core = inputNet scenario_core' \<and>
   mzones scenario_core = \<lparr>apBC = [1, 0], apPC = [0, 1], apIO = [0, 0], apNC = [1, 1]\<rparr>
      # [\<lparr>apBC = [0, 1], apPC = [1, 0], apIO = [1, 1], apNC = [0, 0]\<rparr>] \<and>
   mzones scenario_core' = \<lparr>apBC = [1, 0], apPC = [0, 1], apIO = [0, 0], apNC = [1, 1]\<rparr>
      # [\<lparr>apBC = [1, 1], apPC = [1, 1], apIO = [0, 0], apNC = [1, 1]\<rparr>] \<and>
   map_option (\<lambda>d. (spike_sums d, cell_spikes d))
     (update_spike_sums scenario_cfg 12 (scenario_control\<lparr>simCore := Some scenario_core'\<rparr>))
   = Some (\<lambda>i. tally_cs (scenario_spikes i) (spike_sums scenario_control i), scenario_spikes)"
proof -
  have a: "inputNet scenario_core = inputNet scenario_core'"
    by (simp add: scenario_core'_def)
  have b: "mzones scenario_core = \<lparr>apBC = [1, 0], apPC = [0, 1], apIO = [0, 0], apNC = [1, 1]\<rparr>
      # [\<lparr>apBC = [0, 1], apPC = [1, 0], apIO = [1, 1], apNC = [0, 0]\<rparr>]"
    by (simp add: scenario_core_def)
  have c: "mzones scenario_core' = \<lparr>apBC = [1, 0], apPC = [0, 1], apIO = [0, 0], apNC = [1, 1]\<rparr>
      # [\<lparr>apBC = [1, 1], apPC = [1, 1], apIO = [0, 0], apNC = [1, 1]\<rparr>]"
    by (simp add: scenario_core'_def)
  have d: "scenario_control\<lparr>simCore := Some scenario_core\<rparr> = scenario_control"
    by (simp add: scenario_control_def initialize_spike_sums_def)
  show ?thesis
    using zone0_only_statistics[OF a b c, of scenario_cfg 12 scenario_control]
    by (simp add: a b c d scenario_update_12)
qed


section \<open>The CS firing rates\<close>

lemma sort_prefix_all: "length xs = n \<Longrightarrow> sort_prefix n xs = sort xs"
  by (simp add: sort_prefix_def)

lemma median_indices:
  fixes n :: ct_uint32_t
  assumes "2 \<le> unat n"
  shows "unat (n div 2 - 1) = unat n div 2 - 1" and "unat (n div 2) = unat n div 2"
proof -
  show half: "unat (n div 2) = unat n div 2"
    by (simp add: unat_div)
  have "n div 2 \<noteq> 0"
    using assms half by (metis div_eq_0_iff not_less numeral_2_eq_2 unat_0 zero_neq_numeral)
  then show "unat (n div 2 - 1) = unat n div 2 - 1"
    by (simp add: unat_minus_one half)
qed

lemma firing_rates_of_closed:
  assumes "allocated s" and "2 \<le> unat (num_cells s)"
  shows "firing_rates_of t s =
     Some (s\<lparr>non_cs_spike_counter := sort (non_cs_spike_counter s),
             cs_spike_counter := sort (cs_spike_counter s)\<rparr>,
           \<lparr>non_cs_mean_fr =
              FDiv (FConst (real (unat (non_cs_spike_sum s))))
                   (FMul t (FConst (real (unat (num_cells s))))),
            cs_mean_fr =
              FDiv (FConst (real (unat (cs_spike_sum s))))
                   (FMul (FConst 2) (FConst (real (unat (num_cells s))))),
            non_cs_median_fr =
              FDiv (FConst (real (unat (sort (non_cs_spike_counter s) ! (unat (num_cells s) div 2 - 1)
                                        + sort (non_cs_spike_counter s) ! (unat (num_cells s) div 2)))))
                   (FMul (FConst 2) t),
            cs_median_fr =
              FDiv (FConst (real (unat (sort (cs_spike_counter s) ! (unat (num_cells s) div 2 - 1)
                                        + sort (cs_spike_counter s) ! (unat (num_cells s) div 2)))))
                   (FConst 4)\<rparr>)"
proof -
  have len: "length (cs_spike_counter s) = unat (num_cells s)"
    "length (non_cs_spike_counter s) = unat (num_cells s)"
    using assms(1) by (simp_all add: allocated_def)
  have lo: "unat (num_cells s) div 2 - 1 < unat (num_cells s)"
    and hi: "unat (num_cells s) div 2 < unat (num_cells s)"
    using assms(2) by simp_all
  show ?thesis
    using lo hi
    by (simp add: firing_rates_of_def Let_def median_indices[OF assms(2)] sort_prefix_all len
        nth_opt_def)
qed


lemma firing_rates_types_closed:
  "distinct js \<Longrightarrow> \<forall>i\<in>set js. firing_rates_of t (ss i) = Some (g i, r i) \<Longrightarrow>
   firing_rates_types t js (ss, fr)
   = Some (\<lambda>i. if i \<in> set js then g i else ss i, \<lambda>i. if i \<in> set js then r i else fr i)"
proof (induction js arbitrary: ss fr)
  case Nil
  then show ?case by simp
next
  case (Cons j js)
  have head: "firing_rates_of t (ss j) = Some (g j, r j)"
    using Cons.prems by simp
  have tail: "firing_rates_types t js (ss(j := g j), fr(j := r j))
     = Some (\<lambda>i. if i \<in> set js then g i else (ss(j := g j)) i,
             \<lambda>i. if i \<in> set js then r i else (fr(j := r j)) i)"
    using Cons.prems by (intro Cons.IH) auto
  show ?case
    by (auto simp: head tail)
qed






section \<open>The wire order and the round trip of the container\<close>

lemma generate_zones_length:
  "generate_zones G n g = (cons, acts, g') \<Longrightarrow> length cons = n \<and> length acts = n"
proof (induction n arbitrary: g cons acts g')
  case 0
  then show ?case by simp
next
  case (Suc n)
  obtain x g1 where d1: "IRandom G 0 INT_MAX g = (x, g1)" by (cases "IRandom G 0 INT_MAX g")
  obtain y g2 where d2: "IRandom G 0 INT_MAX g1 = (y, g2)" by (cases "IRandom G 0 INT_MAX g1")
  obtain cs as g3 where r: "generate_zones G n g2 = (cs, as, g3)"
    by (cases "generate_zones G n g2")
  have "length cs = n \<and> length as = n" using Suc.IH[OF r] .
  then show ?case using Suc.prems by (auto simp: d1 d2 r)
qed

lemma CBMState_generate_zones:
  "numZones (CBMState_generate G now Z) = Z \<and>
   length (mzoneConStates (CBMState_generate G now Z)) = unat Z \<and>
   length (mzoneActStates (CBMState_generate G now Z)) = unat Z"
proof -
  obtain x g1 where d1: "IRandom G 0 INT_MAX (CRandomSFMT G (time_seed now)) = (x, g1)"
    by (cases "IRandom G 0 INT_MAX (CRandomSFMT G (time_seed now))")
  obtain cs as g3 where r: "generate_zones G (unat Z) g1 = (cs, as, g3)"
    by (cases "generate_zones G (unat Z) g1")
  show ?thesis
    using generate_zones_length[OF r] by (simp add: CBMState_generate_def d1 r)
qed

lemma write_zones_closed:
  "\<forall>i\<in>set js. i < length cons \<and> i < length acts \<Longrightarrow>
   write_zones K js cons acts out
   = Some (out @ concat (map (\<lambda>i. write_MZoneCon K (cons ! i) @ write_MZoneAct K (acts ! i)) js))"
  by (induction js arbitrary: out) (simp_all add: nth_opt_def)

lemma zones_by_index:
  assumes "length cons = n" and "length acts = n"
  shows "map (\<lambda>i. f (cons ! i) (acts ! i)) [0..<n] = map (\<lambda>(con, act). f con act) (zip cons acts)"
  using assms by (intro nth_equalityI) auto

lemma writeState_layout:
  assumes "length (mzoneConStates s) = unat (numZones s)"
    and "length (mzoneActStates s) = unat (numZones s)"
  shows "writeState K s out = Some (out @ wire_layout K s)"
proof -
  have "\<forall>i\<in>set [0..<unat (numZones s)].
          i < length (mzoneConStates s) \<and> i < length (mzoneActStates s)"
    using assms by simp
  then show ?thesis
    by (simp add: writeState_def write_zones_closed wire_layout_def
        zones_by_index[OF assms, of "\<lambda>con act. write_MZoneCon K con @ write_MZoneAct K act"])
qed

lemma load_zones_layout:
  assumes "codecs_roundtrip K p" and "length cons = length acts"
  shows "load_zones K p (length cons)
           (concat (map (\<lambda>(con, act). write_MZoneCon K con @ write_MZoneAct K act)
                      (zip cons acts)) @ rest)
         = (cons, acts, rest)"
  using assms(2)
proof (induction cons acts rule: list_induct2)
  case Nil
  then show ?case by simp
next
  case (Cons con cons act acts)
  have c: "load_MZoneCon K (write_MZoneCon K con @ r) = (con, r)" for r
    using assms(1) by (simp add: codecs_roundtrip_def)
  have a: "load_MZoneAct K p (write_MZoneAct K act @ r) = (act, r)" for r
    using assms(1) by (simp add: codecs_roundtrip_def)
  show ?case
    by (simp add: c a Cons.IH)
qed

lemma CBMState_restore_layout:
  assumes rt: "codecs_roundtrip K p"
    and "length (mzoneConStates s) = unat (numZones s)"
    and "length (mzoneActStates s) = unat (numZones s)"
  shows "CBMState_restore K (numZones s) p (wire_layout K s @ rest) = (s, rest)"
proof -
  have ic: "load_InNetCon K (write_InNetCon K (innetConState s) @ r) = (innetConState s, r)" for r
    using rt by (simp add: codecs_roundtrip_def)
  have ia: "load_InNetAct K (write_InNetAct K (innetActState s) @ r) = (innetActState s, r)" for r
    using rt by (simp add: codecs_roundtrip_def)
  have zones: "load_zones K p (unat (numZones s))
           (concat (map (\<lambda>(con, act). write_MZoneCon K con @ write_MZoneAct K act)
                      (zip (mzoneConStates s) (mzoneActStates s))) @ rest)
         = (mzoneConStates s, mzoneActStates s, rest)"
    using load_zones_layout[OF rt, of "mzoneConStates s" "mzoneActStates s" rest] assms(2,3)
    by simp
  show ?thesis
    by (simp add: CBMState_restore_def wire_layout_def ic ia zones)
qed

lemma read_zones_layout:
  assumes rt: "codecs_roundtrip K p"
    and len: "length cons = n" "length acts = n" "length cs = n" "length as = n"
    and m: "m \<le> n"
  shows "read_zones K [m..<n] cs as
           (concat (map (\<lambda>(con, act). write_MZoneCon K con @ write_MZoneAct K act)
                      (drop m (zip cons acts))) @ rest)
         = Some (take m cs @ drop m cons, take m as @ drop m acts, rest)"
  using len(3,4) m
proof (induction "n - m" arbitrary: m cs as)
  case 0
  then show ?case using len by simp
next
  case (Suc d)
  then have m: "m < n" by simp
  have unfold: "[m..<n] = m # [Suc m..<n]"
    using m by (simp add: upt_conv_Cons)
  have zip_drop: "drop m (zip cons acts) = (cons ! m, acts ! m) # drop (Suc m) (zip cons acts)"
    using m len by (simp add: Cons_nth_drop_Suc[symmetric])
  have c: "read_MZoneCon K y (write_MZoneCon K (cons ! m) @ r) = (cons ! m, r)" for y r
    using rt by (simp add: codecs_roundtrip_def)
  have a: "read_MZoneAct K y (write_MZoneAct K (acts ! m) @ r) = (acts ! m, r)" for y r
    using rt by (simp add: codecs_roundtrip_def)
  have IH: "read_zones K [Suc m..<n] (cs[m := cons ! m]) (as[m := acts ! m])
           (concat (map (\<lambda>(con, act). write_MZoneCon K con @ write_MZoneAct K act)
                      (drop (Suc m) (zip cons acts))) @ rest)
         = Some (take (Suc m) (cs[m := cons ! m]) @ drop (Suc m) cons,
                 take (Suc m) (as[m := acts ! m]) @ drop (Suc m) acts, rest)"
    using Suc.hyps(1)[of "Suc m" "cs[m := cons ! m]" "as[m := acts ! m]"] Suc.hyps(2) Suc.prems m
    by simp
  have t1: "take (Suc m) (cs[m := cons ! m]) @ drop (Suc m) cons = take m cs @ drop m cons"
    using m len Suc.prems
    by (simp add: take_Suc_conv_app_nth Cons_nth_drop_Suc)
  have t2: "take (Suc m) (as[m := acts ! m]) @ drop (Suc m) acts = take m as @ drop m acts"
    using m len Suc.prems
    by (simp add: take_Suc_conv_app_nth Cons_nth_drop_Suc)
  show ?case
    using m Suc.prems IH
    by (simp add: unfold zip_drop nth_opt_def c a t1 t2)
qed

lemma readState_layout:
  assumes rt: "codecs_roundtrip K p"
    and "length (mzoneConStates s) = unat (numZones s)"
    and "length (mzoneActStates s) = unat (numZones s)"
    and "numZones s0 = numZones s"
    and "length (mzoneConStates s0) = unat (numZones s)"
    and "length (mzoneActStates s0) = unat (numZones s)"
  shows "readState K s0 (wire_layout K s @ rest) = Some (s, rest)"
proof -
  have ic: "read_InNetCon K y (write_InNetCon K (innetConState s) @ r) = (innetConState s, r)"
    for y r using rt by (simp add: codecs_roundtrip_def)
  have ia: "read_InNetAct K y (write_InNetAct K (innetActState s) @ r) = (innetActState s, r)"
    for y r using rt by (simp add: codecs_roundtrip_def)
  have zones: "read_zones K [0..<unat (numZones s)] (mzoneConStates s0) (mzoneActStates s0)
           (concat (map (\<lambda>(con, act). write_MZoneCon K con @ write_MZoneAct K act)
                      (zip (mzoneConStates s) (mzoneActStates s))) @ rest)
         = Some (mzoneConStates s, mzoneActStates s, rest)"
    using read_zones_layout[OF rt assms(2,3,5,6), of 0 rest] by simp
  show ?thesis
    using assms(4) by (simp add: readState_def wire_layout_def ic ia zones)
qed

text \<open>
  Claim C1 (serialization round trip). Let every class of sub-state read back what it
  wrote. Then for every zone count \<open>Z\<close> and every state \<open>S\<close> that the generating
  constructor makes with \<open>Z\<close> zones, \<open>writeState\<close> appends the fields in the wire order
  (input-network connectivity, input-network activity, then per zone in index order
  connectivity and activity), the restoring constructor with zone count \<open>Z\<close> reads
  exactly these fields and yields \<open>S\<close>, field for field, and so does \<open>readState\<close> on
  any other generated state of \<open>Z\<close> zones.
\<close>

theorem serialization_roundtrip:
  assumes "codecs_roundtrip K p"
  shows "let S = CBMState_generate G now Z in
     writeState K S out = Some (out @ wire_layout K S) \<and>
     CBMState_restore K Z p (wire_layout K S @ rest) = (S, rest) \<and>
     readState K (CBMState_generate G' now' Z) (wire_layout K S @ rest) = Some (S, rest)"
proof -
  let ?S = "CBMState_generate G now Z"
  let ?T = "CBMState_generate G' now' Z"
  have wf: "numZones ?S = Z" "length (mzoneConStates ?S) = unat (numZones ?S)"
    "length (mzoneActStates ?S) = unat (numZones ?S)"
    using CBMState_generate_zones[of G now Z] by simp_all
  have wf0: "numZones ?T = numZones ?S" "length (mzoneConStates ?T) = unat (numZones ?S)"
    "length (mzoneActStates ?T) = unat (numZones ?S)"
    using CBMState_generate_zones[of G' now' Z] wf(1) by simp_all
  have w: "writeState K ?S out = Some (out @ wire_layout K ?S)"
    using wf(2,3) by (rule writeState_layout)
  have r: "CBMState_restore K Z p (wire_layout K ?S @ rest) = (?S, rest)"
    using CBMState_restore_layout[OF assms wf(2,3), of rest] wf(1) by simp
  have rd: "readState K ?T (wire_layout K ?S @ rest) = Some (?S, rest)"
    using assms wf(2,3) wf0 by (rule readState_layout)
  show ?thesis
    unfolding Let_def using w r rd by blast
qed

lemma toy_roundtrip: "codecs_roundtrip toy_codecs ()"
  by (simp add: codecs_roundtrip_def toy_codecs_def toy_load_def)

lemma toy_generate_2:
  "CBMState_generate toy_generators 5 2
   = \<lparr>numZones = 2, innetConState = 5, innetActState = 0,
      mzoneConStates = [16, 148], mzoneActStates = [49, 445]\<rparr>"
proof -
  have two: "unat (2 :: ct_uint32_t) = Suc (Suc 0)" by simp
  show ?thesis
    unfolding CBMState_generate_def two
    by (simp add: toy_generators_def INT_MAX_def time_seed_def)
qed


lemma toy_layout:
  "wire_layout toy_codecs (CBMState_generate toy_generators 5 2)
   = [5, 0, 16, 49, 148, 445]"
  by (simp add: toy_generate_2 wire_layout_def toy_codecs_def)

theorem serialization_roundtrip_witness:
  "codecs_roundtrip toy_codecs () \<and>
   writeState toy_codecs (CBMState_generate toy_generators 5 2) []
     = Some [5, 0, 16, 49, 148, 445] \<and>
   CBMState_restore toy_codecs 2 () [5, 0, 16, 49, 148, 445]
     = (CBMState_generate toy_generators 5 2, []) \<and>
   readState toy_codecs (CBMState_generate toy_generators 9 2) [5, 0, 16, 49, 148, 445]
     = Some (CBMState_generate toy_generators 5 2, [])"
  using serialization_roundtrip[OF toy_roundtrip, of toy_generators 5 2 "[]" "[]" toy_generators 9]
    toy_roundtrip
  by (simp add: Let_def toy_layout)


section \<open>Restoring from a short stream\<close>

lemma after_zones_shift:
  "after_zones K p (Suc i) f
   = after_zones K p i (snd (load_MZoneAct K p (snd (load_MZoneCon K f))))"
  by (induction i) simp_all

lemma load_zones_by_position:
  "load_zones K p n f
   = (map (\<lambda>i. fst (load_MZoneCon K (after_zones K p i f))) [0..<n],
      map (\<lambda>i. fst (load_MZoneAct K p (snd (load_MZoneCon K (after_zones K p i f))))) [0..<n],
      after_zones K p n f)"
proof (induction n arbitrary: f)
  case 0
  then show ?case by simp
next
  case (Suc n)
  let ?f2 = "snd (load_MZoneAct K p (snd (load_MZoneCon K f)))"
  have upt: "[0..<Suc n] = 0 # map Suc [0..<n]"
    by (simp only: upt_conv_Cons[of 0 "Suc n"] zero_less_Suc map_Suc_upt)
  have shift: "after_zones K p (Suc i) f = after_zones K p i ?f2" for i
    by (rule after_zones_shift)
  have first: "after_zones K p 0 f = f"
    by simp
  have "load_zones K p (Suc n) f
        = (fst (load_MZoneCon K f) # fst (load_zones K p n ?f2),
           fst (load_MZoneAct K p (snd (load_MZoneCon K f))) # fst (snd (load_zones K p n ?f2)),
           snd (snd (load_zones K p n ?f2)))"
    by (simp add: case_prod_beta)
  also have "\<dots> = (map (\<lambda>i. fst (load_MZoneCon K (after_zones K p i f))) [0..<Suc n],
      map (\<lambda>i. fst (load_MZoneAct K p (snd (load_MZoneCon K (after_zones K p i f)))))
        [0..<Suc n],
      after_zones K p (Suc n) f)"
    unfolding Suc.IH[of ?f2] upt list.map map_map comp_def shift first by simp
  finally show ?case .
qed

lemma load_zones_exhausted:
  assumes "snd (load_MZoneCon K []) = []" and "snd (load_MZoneAct K p []) = []"
  shows "load_zones K p n []
         = (replicate n (fst (load_MZoneCon K [])), replicate n (fst (load_MZoneAct K p [])), [])"
proof (induction n)
  case 0
  then show ?case by simp
next
  case (Suc n)
  show ?case
    by (simp add: case_prod_beta assms Suc.IH)
qed

text \<open>
  Claim C2, as amended. The restoring constructor never fails and has no \<open>CorruptState\<close>
  condition: for every stream, also one that is exhausted before all fields are read, it
  returns the state with \<open>Z\<close> zones in which every field is what the reader of that
  sub-state yields from the stream where the reads before it have left it (the input
  network's connectivity, its activity, then per zone in index order the connectivity and
  the activity), together with the rest of the stream. So on every stream that is too
  short for the fields, where the spec's \<open>restore\<close> fails with \<open>CorruptState\<close>, the
  constructor returns a state all the same; and on an exhausted stream from which the
  readers take nothing, every field is what its reader yields from no input at all.
\<close>

theorem restore_never_fails:
  "CBMState_restore K Z p f = restore_by_position K Z p f \<and>
   (length f < fields_length sizes Z \<longrightarrow>
      restore_spec sizes K Z p f = Inl CorruptState \<and>
      restore_spec sizes K Z p f \<noteq> Inr (CBMState_restore K Z p f)) \<and>
   (snd (load_InNetCon K []) = [] \<and> snd (load_InNetAct K []) = [] \<and>
    snd (load_MZoneCon K []) = [] \<and> snd (load_MZoneAct K p []) = [] \<longrightarrow>
    CBMState_restore K Z p []
    = (\<lparr>numZones = Z,
         innetConState = fst (load_InNetCon K []),
         innetActState = fst (load_InNetAct K []),
         mzoneConStates = replicate (unat Z) (fst (load_MZoneCon K [])),
         mzoneActStates = replicate (unat Z) (fst (load_MZoneAct K p []))\<rparr>, []))"
proof (intro conjI impI)
  show "CBMState_restore K Z p f = restore_by_position K Z p f"
    by (simp add: CBMState_restore_def restore_by_position_def case_prod_beta Let_def
        load_zones_by_position)
next
  assume "length f < fields_length sizes Z"
  then show "restore_spec sizes K Z p f = Inl CorruptState"
    by (simp add: restore_spec_def)
next
  assume "length f < fields_length sizes Z"
  then show "restore_spec sizes K Z p f \<noteq> Inr (CBMState_restore K Z p f)"
    by (simp add: restore_spec_def)
next
  assume e: "snd (load_InNetCon K []) = [] \<and> snd (load_InNetAct K []) = [] \<and>
    snd (load_MZoneCon K []) = [] \<and> snd (load_MZoneAct K p []) = []"
  have zs: "load_zones K p (unat Z) []
         = (replicate (unat Z) (fst (load_MZoneCon K [])),
            replicate (unat Z) (fst (load_MZoneAct K p [])), [])"
    using e by (intro load_zones_exhausted) simp_all
  show "CBMState_restore K Z p []
    = (\<lparr>numZones = Z,
         innetConState = fst (load_InNetCon K []),
         innetActState = fst (load_InNetAct K []),
         mzoneConStates = replicate (unat Z) (fst (load_MZoneCon K [])),
         mzoneActStates = replicate (unat Z) (fst (load_MZoneAct K p []))\<rparr>, [])"
    using e by (simp add: CBMState_restore_def case_prod_beta zs)
qed

theorem restore_never_fails_witness:
  "length ([] :: nat list) < fields_length toy_sizes 2 \<and>
   snd (load_InNetCon toy_codecs []) = [] \<and> snd (load_InNetAct toy_codecs []) = [] \<and>
   snd (load_MZoneCon toy_codecs []) = [] \<and> snd (load_MZoneAct toy_codecs () []) = [] \<and>
   restore_spec toy_sizes toy_codecs 2 () [] = Inl CorruptState \<and>
   CBMState_restore toy_codecs 2 () []
    = (\<lparr>numZones = 2, innetConState = 0, innetActState = 0,
         mzoneConStates = [0, 0], mzoneActStates = [0, 0]\<rparr>, [])"
proof -
  note t = restore_never_fails[of toy_codecs 2 "()" "[]" toy_sizes]
  have short: "length ([] :: nat list) < fields_length toy_sizes 2"
    by (simp add: fields_length_def toy_sizes_def)
  have e: "snd (load_InNetCon toy_codecs []) = [] \<and> snd (load_InNetAct toy_codecs []) = [] \<and>
   snd (load_MZoneCon toy_codecs []) = [] \<and> snd (load_MZoneAct toy_codecs () []) = []"
    by (simp add: toy_codecs_def toy_load_def)
  have "unat (2 :: ct_uint32_t) = 2"
    by simp
  then have two: "replicate (unat (2 :: ct_uint32_t)) x = [x, x]" for x :: nat
    by (simp only: numeral_2_eq_2 replicate.simps)
  have vals: "fst (load_InNetCon toy_codecs []) = 0" "fst (load_InNetAct toy_codecs []) = 0"
    "fst (load_MZoneCon toy_codecs []) = 0" "fst (load_MZoneAct toy_codecs () []) = 0"
    by (simp_all add: toy_codecs_def toy_load_def)
  have corrupt: "restore_spec toy_sizes toy_codecs 2 () [] = Inl CorruptState"
    using t[THEN conjunct2, THEN conjunct1, rule_format, OF short] by simp
  have state: "CBMState_restore toy_codecs 2 () []
    = (\<lparr>numZones = 2, innetConState = 0, innetActState = 0,
         mzoneConStates = [0, 0], mzoneActStates = [0, 0]\<rparr>, [])"
    using t[THEN conjunct2, THEN conjunct2, rule_format, OF e]
    by (simp only: two vals)
  show ?thesis
    using short e corrupt state by blast
qed

text \<open>
  Claim C2 as stated fails: a stream of three elements is exhausted before the fourth field
  of a one-zone state is read. The spec's \<open>restore\<close> would fail with \<open>CorruptState\<close>; the
  constructor returns a state whose last field is what the reader had before.
\<close>

theorem restore_short_stream_counterexample:
  "length [7, 8, 9 :: nat] < fields_length toy_sizes 1 \<and>
   restore_spec toy_sizes toy_codecs 1 () [7, 8, 9] = Inl CorruptState \<and>
   CBMState_restore toy_codecs 1 () [7, 8, 9]
    = (\<lparr>numZones = 1, innetConState = 7, innetActState = 8,
         mzoneConStates = [9], mzoneActStates = [0]\<rparr>, [])"
  by (simp add: restore_spec_def fields_length_def toy_sizes_def CBMState_restore_def
      toy_codecs_def toy_load_def)

section \<open>The seed of the generating constructor\<close>

lemma draws_two:
  "IRandom G 0 INT_MAX g = (x, g1) \<Longrightarrow> IRandom G 0 INT_MAX g1 = (y, g2) \<Longrightarrow>
   draws G (2 * Suc n) g = x # y # draws G (2 * n) g2"
  by simp

lemma generate_zones_draws:
  "generate_zones G n g = (cons, acts, g') \<Longrightarrow>
   cons = map (\<lambda>i. new_MZoneConnectivityState G (draws G (2 * n) g ! (2 * i))) [0..<n] \<and>
   acts = map (\<lambda>i. new_MZoneActivityState G (draws G (2 * n) g ! (2 * i + 1))) [0..<n]"
proof (induction n arbitrary: g cons acts g')
  case 0
  then show ?case by simp
next
  case (Suc n)
  obtain x g1 where d1: "IRandom G 0 INT_MAX g = (x, g1)" by (cases "IRandom G 0 INT_MAX g")
  obtain y g2 where d2: "IRandom G 0 INT_MAX g1 = (y, g2)" by (cases "IRandom G 0 INT_MAX g1")
  obtain cs as g3 where r: "generate_zones G n g2 = (cs, as, g3)"
    by (cases "generate_zones G n g2")
  have IH: "cs = map (\<lambda>i. new_MZoneConnectivityState G (draws G (2 * n) g2 ! (2 * i))) [0..<n]"
    "as = map (\<lambda>i. new_MZoneActivityState G (draws G (2 * n) g2 ! (2 * i + 1))) [0..<n]"
    using Suc.IH[OF r] by simp_all
  have res: "cons = new_MZoneConnectivityState G x # cs" "acts = new_MZoneActivityState G y # as"
    using Suc.prems by (simp_all add: d1 d2 r)
  have ds: "draws G (2 * Suc n) g = x # y # draws G (2 * n) g2"
    using d1 d2 by (rule draws_two)
  show ?case
    unfolding ds res IH
    by (simp add: map_upt_Suc del: upt_Suc)
qed

text \<open>
  Claim C7, as amended. The generating constructor takes the zone count only and seeds
  its generator with the clock reading \<open>time(0)\<close>: the state it makes is the one that the
  spec's \<open>create(zoneCount, seed)\<close> makes when the seed is the clock reading, with the
  input-network connectivity seed drawn first and then, in zone order, a connectivity
  seed and an activity seed per zone. So two constructions give identical states when the
  zone count and the clock reading are the same; the seed is not a parameter of the
  constructor.
\<close>

theorem generate_seeded_by_clock:
  "CBMState_generate G now Z = create_spec G Z (time_seed now)"
proof -
  obtain x g1 where d1: "IRandom G 0 INT_MAX (CRandomSFMT G (time_seed now)) = (x, g1)"
    by (cases "IRandom G 0 INT_MAX (CRandomSFMT G (time_seed now))")
  obtain cs as g3 where r: "generate_zones G (unat Z) g1 = (cs, as, g3)"
    by (cases "generate_zones G (unat Z) g1")
  have ds: "draws G (1 + 2 * unat Z) (CRandomSFMT G (time_seed now)) = x # draws G (2 * unat Z) g1"
    using d1 by simp
  have zones: "cs = map (\<lambda>i. new_MZoneConnectivityState G (draws G (2 * unat Z) g1 ! (2 * i)))
                     [0..<unat Z]"
    "as = map (\<lambda>i. new_MZoneActivityState G (draws G (2 * unat Z) g1 ! (2 * i + 1))) [0..<unat Z]"
    using generate_zones_draws[OF r] by simp_all
  show ?thesis
    unfolding CBMState_generate_def create_spec_def Let_def ds d1 r prod.case
    using zones by simp
qed

text \<open>
  Claim C7 as stated fails: two generative constructions with the same zone count, the
  only argument a caller supplies, give different states when the clock has advanced by a
  second between them.
\<close>

theorem generate_clock_counterexample:
  "CBMState_generate toy_generators 5 1 \<noteq> CBMState_generate toy_generators 6 1"
proof -
  have one: "unat (1 :: ct_uint32_t) = Suc 0" by simp
  have "innetConState (CBMState_generate toy_generators 5 1) = 5"
    unfolding CBMState_generate_def one
    by (simp add: toy_generators_def INT_MAX_def time_seed_def)
  moreover have "innetConState (CBMState_generate toy_generators 6 1) = 6"
    unfolding CBMState_generate_def one
    by (simp add: toy_generators_def INT_MAX_def time_seed_def)
  ultimately show ?thesis by auto
qed

theorem generate_seeded_by_clock_witness:
  "CBMState_generate toy_generators 5 2 = create_spec toy_generators 2 5 \<and>
   create_spec toy_generators 2 5
   = \<lparr>numZones = 2, innetConState = 5, innetActState = 0,
      mzoneConStates = [16, 148], mzoneActStates = [49, 445]\<rparr>"
proof -
  have "time_seed 5 = 5" by (simp add: time_seed_def)
  then show ?thesis
    using generate_seeded_by_clock[of toy_generators 5 2] toy_generate_2 by simp
qed


section \<open>Sequencing errors\<close>

text \<open>
  Claim C8 (sequencing errors). When the state is initialised before the connectivity or
  the activity parameters are populated, and when a state or a simulation is written while
  the simulation is not initialised, the operation writes its error lines to the
  diagnostic output and returns: every field of the controller and every file are as
  before. The caller recovers by redoing the setup in order: once both parameter sets are
  populated, the same initialisation loads the state from the same file as if the failed
  attempt had not been made, and the simulation can then be written: a file that can be
  opened for writing then holds the two parameter blocks and the state, in this order.
  (A file that cannot be opened is not written, and nothing is reported for it: the
  writers do not look at the state of their stream.)
\<close>

theorem sequencing_errors_abort:
  "(\<not> con_params_populated c \<or> \<not> act_params_populated c \<longrightarrow>
      (\<exists>msgs. msgs \<noteq> [] \<and>
         init_sim_state P cfg f (c, w) = (c, w\<lparr>stderr := stderr w @ msgs\<rparr>))) \<and>
   (\<not> (con_params_populated c \<and> act_params_populated c \<and> simState c \<noteq> None) \<longrightarrow>
      (\<exists>msgs. msgs \<noteq> [] \<and>
         save_sim_to_file P cfg f (c, w) = (c, w\<lparr>stderr := stderr w @ msgs\<rparr>)) \<and>
      (\<exists>msgs. msgs \<noteq> [] \<and>
         save_sim_state_to_file P f (c, w) = (c, w\<lparr>stderr := stderr w @ msgs\<rparr>))) \<and>
   ((\<not> con_params_populated c \<or> \<not> act_params_populated c) \<and> simState c = None \<longrightarrow>
      (let (c1, w1) = init_sim_state P cfg f (c, w);
           c2 = c1\<lparr>con_params_populated := True, act_params_populated := True\<rparr>;
           (c3, w3) = init_sim_state P cfg f (c2, w1);
           (c4, w4) = save_sim_to_file P cfg g (c3, w3)
       in simState c3 = Some (CBMState_of_file P (numMZones cfg) (files w f)) \<and>
          w3 = w1 \<and> c4 = c3 \<and> stderr w4 = stderr w1 \<and> openable w4 = openable w \<and>
          files w4 =
            (if openable w g
             then (files w)(g \<mapsto>
                    write_con_params P cfg @ write_act_params P cfg @
                    (case simCore c of
                       Some core \<Rightarrow> simCore_writeState P core
                     | None \<Rightarrow> simState_writeState P
                                 (CBMState_of_file P (numMZones cfg) (files w f))))
             else files w)))"
proof (intro conjI impI)
  assume "\<not> con_params_populated c \<or> \<not> act_params_populated c"
  then show "\<exists>msgs. msgs \<noteq> [] \<and>
         init_sim_state P cfg f (c, w) = (c, w\<lparr>stderr := stderr w @ msgs\<rparr>)"
    by (auto simp: init_sim_state_def)
next
  assume "\<not> (con_params_populated c \<and> act_params_populated c \<and> simState c \<noteq> None)"
  then show "\<exists>msgs. msgs \<noteq> [] \<and>
         save_sim_to_file P cfg f (c, w) = (c, w\<lparr>stderr := stderr w @ msgs\<rparr>)"
    by (auto simp: save_sim_to_file_def)
next
  assume "\<not> (con_params_populated c \<and> act_params_populated c \<and> simState c \<noteq> None)"
  then show "\<exists>msgs. msgs \<noteq> [] \<and>
         save_sim_state_to_file P f (c, w) = (c, w\<lparr>stderr := stderr w @ msgs\<rparr>)"
    by (auto simp: save_sim_state_to_file_def)
next
  assume a: "(\<not> con_params_populated c \<or> \<not> act_params_populated c) \<and> simState c = None"
  then have "\<exists>msgs. init_sim_state P cfg f (c, w) = (c, w\<lparr>stderr := stderr w @ msgs\<rparr>)"
    by (cases "con_params_populated c") (auto simp: init_sim_state_def)
  then obtain msgs where
    failed: "init_sim_state P cfg f (c, w) = (c, w\<lparr>stderr := stderr w @ msgs\<rparr>)"
    by blast
  show "let (c1, w1) = init_sim_state P cfg f (c, w);
           c2 = c1\<lparr>con_params_populated := True, act_params_populated := True\<rparr>;
           (c3, w3) = init_sim_state P cfg f (c2, w1);
           (c4, w4) = save_sim_to_file P cfg g (c3, w3)
       in simState c3 = Some (CBMState_of_file P (numMZones cfg) (files w f)) \<and>
          w3 = w1 \<and> c4 = c3 \<and> stderr w4 = stderr w1 \<and> openable w4 = openable w \<and>
          files w4 =
            (if openable w g
             then (files w)(g \<mapsto>
                    write_con_params P cfg @ write_act_params P cfg @
                    (case simCore c of
                       Some core \<Rightarrow> simCore_writeState P core
                     | None \<Rightarrow> simState_writeState P
                                 (CBMState_of_file P (numMZones cfg) (files w f))))
             else files w)"
    using a
    by (simp add: failed init_sim_state_def save_sim_to_file_def state_image_def
        split: option.splits)
qed


lemma blank_missing:
  "\<not> con_params_populated blank_control \<or> \<not> act_params_populated blank_control"
  "\<not> (con_params_populated blank_control \<and> act_params_populated blank_control \<and>
      simState blank_control \<noteq> None)"
  "(\<not> con_params_populated blank_control \<or> \<not> act_params_populated blank_control) \<and>
   simState blank_control = None"
  by (simp_all add: blank_control_def)

theorem sequencing_errors_abort_witness:
  "con_params_populated blank_control = False \<and>
   act_params_populated blank_control = False \<and>
   simState blank_control = None \<and>
   (\<exists>msgs. msgs \<noteq> [] \<and>
      init_sim_state toy_persistence scenario_cfg ''state.bin'' (blank_control, toy_world)
      = (blank_control, toy_world\<lparr>stderr := stderr toy_world @ msgs\<rparr>)) \<and>
   (\<exists>msgs. msgs \<noteq> [] \<and>
      save_sim_to_file toy_persistence scenario_cfg ''state.bin'' (blank_control, toy_world)
      = (blank_control, toy_world\<lparr>stderr := stderr toy_world @ msgs\<rparr>)) \<and>
   (let (c1, w1) = init_sim_state toy_persistence scenario_cfg ''state.bin''
                     (blank_control, toy_world);
        c2 = c1\<lparr>con_params_populated := True, act_params_populated := True\<rparr>;
        (c3, w3) = init_sim_state toy_persistence scenario_cfg ''state.bin'' (c2, w1);
        (c4, w4) = save_sim_to_file toy_persistence scenario_cfg ''sim.bin'' (c3, w3);
        (c5, w5) = save_sim_to_file toy_persistence scenario_cfg ''/no/such/dir/sim.bin''
                     (c3, w3)
    in simState c3 = Some 9 \<and> files w4 ''sim.bin'' = Some [1, 2, 9] \<and>
       files w5 ''/no/such/dir/sim.bin'' = None \<and> stderr w5 = stderr w3)"
proof -
  note t = sequencing_errors_abort[of blank_control toy_persistence scenario_cfg
      "''state.bin''" toy_world "''sim.bin''"]
  have a: "\<exists>msgs. msgs \<noteq> [] \<and>
      init_sim_state toy_persistence scenario_cfg ''state.bin'' (blank_control, toy_world)
      = (blank_control, toy_world\<lparr>stderr := stderr toy_world @ msgs\<rparr>)"
    using t blank_missing(1) by blast
  have b: "\<exists>msgs. msgs \<noteq> [] \<and>
      save_sim_to_file toy_persistence scenario_cfg ''state.bin'' (blank_control, toy_world)
      = (blank_control, toy_world\<lparr>stderr := stderr toy_world @ msgs\<rparr>)"
    using t blank_missing(2) by blast
  have c: "let (c1, w1) = init_sim_state toy_persistence scenario_cfg ''state.bin''
                     (blank_control, toy_world);
        c2 = c1\<lparr>con_params_populated := True, act_params_populated := True\<rparr>;
        (c3, w3) = init_sim_state toy_persistence scenario_cfg ''state.bin'' (c2, w1);
        (c4, w4) = save_sim_to_file toy_persistence scenario_cfg ''sim.bin'' (c3, w3);
        (c5, w5) = save_sim_to_file toy_persistence scenario_cfg ''/no/such/dir/sim.bin''
                     (c3, w3)
    in simState c3 = Some 9 \<and> files w4 ''sim.bin'' = Some [1, 2, 9] \<and>
       files w5 ''/no/such/dir/sim.bin'' = None \<and> stderr w5 = stderr w3"
    by (simp add: init_sim_state_def save_sim_to_file_def state_image_def blank_control_def
        toy_persistence_def toy_world_def)
  have d: "con_params_populated blank_control = False"
    "act_params_populated blank_control = False" "simState blank_control = None"
    by (simp_all add: blank_control_def)
  show ?thesis
    using a b c d by blast
qed


section \<open>The trial loop and its cancellation\<close>

lemma whole_trials_none: "whole_trials cfg a a = []"
  by (simp add: whole_trials_def)

lemma whole_trials_first:
  fixes a b :: c_int
  assumes "sint a < sint b"
  shows "whole_trials cfg a b = trial_steps cfg a @ whole_trials cfg (a + 1) b"
  using assms
  by (simp add: whole_trials_def upto_rec1[of "sint a" "sint b - 1"] sint_increment[OF assms])

lemma whole_trials_one:
  fixes a b :: c_int
  assumes "sint a < sint b"
  shows "whole_trials cfg a (a + 1) = trial_steps cfg a"
  using whole_trials_first[of a "a + 1" cfg] sint_increment[OF assms]
  by (simp add: whole_trials_none)

lemma trial_loop_log:
  "(trial_loop E cfg W gui (c, s) = Returned (c', s') \<longrightarrow>
      sint (trial c) \<le> sint (trial c') \<and>
      (sint (numTotalTrials cfg) \<le> sint (trial c') \<or> \<not> in_run c') \<and>
      completed s' = completed s @ whole_trials cfg (trial c) (trial c')) \<and>
   (trial_loop E cfg W gui (c, s) = Blocked (c', s') \<longrightarrow>
      sint (trial c) \<le> sint (trial c') \<and> sint (trial c') < sint (numTotalTrials cfg) \<and>
      completed s' = completed s @ whole_trials cfg (trial c) (trial c' + 1))"
proof (induction E cfg W gui "(c, s)" arbitrary: c s rule: trial_loop.induct)
  case (1 E cfg W gui c s)
  show ?case
  proof (cases "sint (trial c) < sint (numTotalTrials cfg) \<and> in_run c")
    case False
    then have "trial_loop E cfg W gui (c, s) = Returned (c, s)"
      by (subst trial_loop.simps) auto
    then show ?thesis
      using False by (auto simp: whole_trials_none)
  next
    case True
    then have below: "sint (trial c) < sint (numTotalTrials cfg)"
      by simp
    note next_trial = sint_increment[OF below]
    show ?thesis
    proof (cases "trial_body E cfg W gui (c, s)")
      case Undefined
      then have "trial_loop E cfg W gui (c, s) = Undefined"
        using True by (subst trial_loop.simps) auto
      then show ?thesis by simp
    next
      case (Blocked y)
      obtain c1 s1 where y: "y = (c1, s1)" by (cases y)
      have loop: "trial_loop E cfg W gui (c, s) = Blocked (c1, s1)"
        using True Blocked y by (subst trial_loop.simps) auto
      have "trial c1 = trial c \<and> completed s1 = completed s @ trial_steps cfg (trial c)"
        using trial_body_log[of E cfg W gui c s c1 s1] Blocked y by simp
      then show ?thesis
        using True by (auto simp: loop whole_trials_one[OF below])
    next
      case (Returned y)
      obtain c1 s1 where y: "y = (c1, s1)" by (cases y)
      have body: "trial c1 = trial c" "completed s1 = completed s @ trial_steps cfg (trial c)"
        using trial_body_log[of E cfg W gui c s c1 s1] Returned y by simp_all
      have loop: "trial_loop E cfg W gui (c, s)
                  = trial_loop E cfg W gui (c1\<lparr>trial := trial c1 + 1\<rparr>, s1)"
        using True Returned y by (subst trial_loop.simps) auto
      note IH = "1.hyps"[OF True Returned y[symmetric]]
      have ret: "sint (trial c) \<le> sint (trial c') \<and>
          (sint (numTotalTrials cfg) \<le> sint (trial c') \<or> \<not> in_run c') \<and>
          completed s' = completed s @ whole_trials cfg (trial c) (trial c')"
        if "trial_loop E cfg W gui (c, s) = Returned (c', s')"
      proof -
        have r: "sint (trial c + 1) \<le> sint (trial c')"
          "sint (numTotalTrials cfg) \<le> sint (trial c') \<or> \<not> in_run c'"
          "completed s' = completed s1 @ whole_trials cfg (trial c + 1) (trial c')"
          using IH that body(1) by (simp_all add: loop)
        have "sint (trial c) < sint (trial c')" using r(1) next_trial by simp
        then show ?thesis
          using r body(2) by (simp add: whole_trials_first)
      qed
      have blk: "sint (trial c) \<le> sint (trial c') \<and> sint (trial c') < sint (numTotalTrials cfg) \<and>
          completed s' = completed s @ whole_trials cfg (trial c) (trial c' + 1)"
        if "trial_loop E cfg W gui (c, s) = Blocked (c', s')"
      proof -
        have r: "sint (trial c + 1) \<le> sint (trial c')" "sint (trial c') < sint (numTotalTrials cfg)"
          "completed s' = completed s1 @ whole_trials cfg (trial c + 1) (trial c' + 1)"
          using IH that body(1) by (simp_all add: loop)
        have "sint (trial c) < sint (trial c' + 1)"
          using r(1) next_trial sint_increment[OF r(2)] by simp
        then show ?thesis
          using r body(2) next_trial by (simp add: whole_trials_first)
      qed
      show ?thesis using ret blk by blast
    qed
  qed
qed


subsection \<open>The small run\<close>

lemma allocated_tally_cs:
  "allocated s \<Longrightarrow> allocated (tally_cs spk s) \<and> num_cells (tally_cs spk s) = num_cells s"
  by (simp add: allocated_def tally_cs_def length_bump_counters)

lemma allocated_tally_non_cs:
  "allocated s \<Longrightarrow>
   allocated (tally_non_cs spk s) \<and> num_cells (tally_non_cs spk s) = num_cells s"
  by (simp add: allocated_def tally_non_cs_def length_bump_counters)

lemma calculate_firing_rates_returns:
  assumes "\<forall>i. allocated (spike_sums c i) \<and> 2 \<le> unat (num_cells (spike_sums c i))"
  shows "\<exists>ss fr. calculate_firing_rates cfg c = Some (c\<lparr>spike_sums := ss, firing_rates := fr\<rparr>) \<and>
           (\<forall>i. allocated (ss i) \<and> num_cells (ss i) = num_cells (spike_sums c i))"
proof -
  let ?t = "FDiv (FConst (real_of_int (sint (csStart cfg - 1)))) (FConst 1000)"
  let ?g = "\<lambda>i. fst (the (firing_rates_of ?t (spike_sums c i)))"
  let ?r = "\<lambda>i. snd (the (firing_rates_of ?t (spike_sums c i)))"
  have each: "\<forall>i\<in>set cell_ids. firing_rates_of ?t (spike_sums c i) = Some (?g i, ?r i)"
    using assms by (simp add: firing_rates_of_closed)
  have loop: "firing_rates_types ?t cell_ids (spike_sums c, firing_rates c) = Some (?g, ?r)"
    using firing_rates_types_closed[OF cell_ids_distinct each, of "firing_rates c"]
    by (simp add: cell_ids_all)
  have run: "calculate_firing_rates cfg c = Some (c\<lparr>spike_sums := ?g, firing_rates := ?r\<rparr>)"
    unfolding calculate_firing_rates_def Let_def loop by simp
  have "allocated (?g i) \<and> num_cells (?g i) = num_cells (spike_sums c i)" for i
    using assms[rule_format, of i] by (simp add: firing_rates_of_closed allocated_def)
  then show ?thesis using run by blast
qed

lemma tiny_export:
  "export_spikes [1, 0] scenario_core
   = Some (\<lambda>i. case i of MF \<Rightarrow> [1, 0] | GR \<Rightarrow> [1, 0] | GO \<Rightarrow> [0, 1] | BC \<Rightarrow> [1, 0]
                 | SC \<Rightarrow> [1, 1] | PC \<Rightarrow> [0, 1] | IO \<Rightarrow> [0, 0] | DCN \<Rightarrow> [1, 1])"
  by (simp add: export_spikes_def scenario_core_def)

lemma tiny_update:
  assumes "tiny_ready c"
  shows "\<exists>c2. update_spike_sums tiny_cfg k (c\<lparr>mfAP := [1, 0], mfs := Some (), simCore := Some scenario_core\<rparr>)
              = Some c2 \<and> tiny_ready c2 \<and> trial c2 = trial c \<and> in_run c2 = in_run c \<and>
              sim_is_paused c2 = sim_is_paused c \<and> sim_vis_mode c2 = sim_vis_mode c"
proof -
  let ?c = "c\<lparr>mfAP := [1, 0], mfs := Some (), simCore := Some scenario_core\<rparr>"
  let ?spk = "\<lambda>i. case i of MF \<Rightarrow> [1, 0] | GR \<Rightarrow> [1, 0] | GO \<Rightarrow> [0, 1] | BC \<Rightarrow> [1, 0]
                 | SC \<Rightarrow> [1, 1] | PC \<Rightarrow> [0, 1] | IO \<Rightarrow> [0, 0] | DCN \<Rightarrow> [1 :: ct_uint8_t, 1]"
  have gather: "gather_cell_spikes ?c = Some ?spk"
    by (simp add: gather_cell_spikes_def tiny_export)
  have al: "allocated (spike_sums c i)" and n: "num_cells (spike_sums c i) = 2" for i
    using assms by (simp_all add: tiny_ready_def)
  have "covers (?spk i) (spike_sums c i)" for i
    by (cases i) (simp_all add: covers_def n)
  then have ready: "tracker_ready ?spk (spike_sums ?c)"
    using al by (simp add: tracker_ready_def list_all_cell_ids)
  show ?thesis
    using assms allocated_tally_cs[OF al] allocated_tally_non_cs[OF al] n
    by (simp add: update_spike_sums_closed[OF gather ready] tiny_ready_def)
qed

lemma tiny_accumulate:
  assumes "length (goSpkCounter loc) = 2"
  shows "\<exists>loc'. accumulate_go [0..<unat (num_go tiny_cfg)] (apGO (inputNet scenario_core))
           (gSum_GRGO (inputNet scenario_core)) (gSum_MFGO (inputNet scenario_core)) loc
         = Some loc' \<and> length (goSpkCounter loc') = 2"
proof -
  have idx: "[0..<unat (num_go tiny_cfg)] = [0, Suc 0]"
    by (simp add: tiny_cfg_def upt_conv_Cons)
  show ?thesis
    using assms by (simp add: idx scenario_core_def nth_opt_def)
qed

lemma tiny_timestep:
  assumes ready: "tiny_ready c" and loc: "length (goSpkCounter loc) = 2"
  shows "\<exists>c' loc'. timestep toy_externals tiny_cfg tiny_weights (Some ()) k (c, loc, s)
      = Some (c', loc', s\<lparr>completed := completed s @ [(trial c, k)],
                          gui_polls := polls_after (gui_polls s)\<rparr>) \<and>
      tiny_ready c' \<and> length (goSpkCounter loc') = 2 \<and> trial c' = trial c \<and>
      (in_run c', sim_is_paused c') = flags_after (gui_polls s) (in_run c, sim_is_paused c)"
proof -
  have parts: "simCore c = Some scenario_core" "mfs c = Some ()" "mfFreq c = Some ()"
    using ready by (simp_all add: tiny_ready_def)
  obtain c2 where up: "update_spike_sums tiny_cfg k
       (c\<lparr>mfAP := [1, 0], mfs := Some (), simCore := Some scenario_core\<rparr>) = Some c2"
    and c2: "tiny_ready c2" "trial c2 = trial c" "in_run c2 = in_run c"
      "sim_is_paused c2 = sim_is_paused c"
    using tiny_update[OF ready, of k] by blast
  obtain loc' where acc: "accumulate_go [0..<unat (num_go tiny_cfg)] (apGO (inputNet scenario_core))
           (gSum_GRGO (inputNet scenario_core)) (gSum_MFGO (inputNet scenario_core)) loc
         = Some loc'" and loc': "length (goSpkCounter loc') = 2"
    using tiny_accumulate[OF loc] by blast
  have handled: "tiny_ready (apply_handler h c2)" "trial (apply_handler h c2) = trial c"
    "(in_run (apply_handler h c2), sim_is_paused (apply_handler h c2))
     = h (in_run c, sim_is_paused c)" for h
    using c2 by (simp_all add: apply_handler_def tiny_ready_def split: prod.splits)
  have ext: "updateErrDrive toy_externals z e core = core"
    "updateTrueMFs toy_externals fl core = core"
    "updateMFInput toy_externals ap core = core"
    "calcActivity toy_externals a b d e' f core = core"
    "calcPoissActivity toy_externals fr zs m = ([1, 0], m)"
    "calcTrueMFs toy_externals fr m = ([True, False], m)"
    for z e core fl ap a b d e' f fr zs m
    by (simp_all add: toy_externals_def)
  show ?thesis
  proof (cases "gui_polls s")
    case Nil
    then show ?thesis
      using c2 loc loc' up acc
      by (auto simp: timestep_def parts ext polls_after_def flags_after_def)
  next
    case (Cons p rest)
    show ?thesis
    proof (cases p)
      case None
      then show ?thesis
        using Cons c2 loc loc' up acc
        by (auto simp: timestep_def parts ext polls_after_def flags_after_def)
    next
      case (Some h)
      then show ?thesis
        using Cons handled[of h] c2 loc loc' up acc
        by (auto simp: timestep_def parts ext polls_after_def flags_after_def)
    qed
  qed
qed

lemma whole_trials_complete:
  assumes "(t, k) \<in> set (whole_trials cfg a b)" and "k' \<in> set (timesteps cfg)"
  shows "(t, k') \<in> set (whole_trials cfg a b)"
proof -
  obtain x where x: "x \<in> set [sint a..sint b - 1]"
    "(t, k) \<in> set (trial_steps cfg (word_of_int x))"
    using assms(1) by (auto simp: whole_trials_def)
  have tx: "word_of_int x = t" and started: "sint (homeoTuningTrials cfg) \<le> sint t"
    using x(2) by (auto simp: trial_steps_def split: if_splits)
  have "(t, k') \<in> set (trial_steps cfg (word_of_int x))"
    using started tx assms(2) by (simp add: trial_steps_def)
  then show ?thesis
    using x(1) by (auto simp: whole_trials_def)
qed

lemma upto01: "[0..(1::int)] = [0, 1]"
  by (simp add: upto_rec1)

lemma tiny_timesteps: "timesteps tiny_cfg = [0, 1]"
  by (simp add: timesteps_def tiny_cfg_def upto01)

lemma tiny_population: "population tiny_cfg i = 2"
  by (cases i) (simp_all add: population_def tiny_cfg_def)

lemma tiny_control_ready:
  "tiny_ready tiny_control" "in_run tiny_control" "\<not> sim_is_paused tiny_control"
  "trial tiny_control = 0"
  by (simp_all add: tiny_ready_def tiny_control_def scenario_control_def
      initialize_spike_sums_def allocated_def tiny_population)

lemma tiny_total: "sint (numTotalTrials tiny_cfg) = 3"
  by (simp add: numTotalTrials_def preTrialNumber_def tiny_cfg_def)

lemma tiny_steps:
  "\<exists>c2 loc2. run_timesteps toy_externals tiny_cfg tiny_weights (Some ()) [0, 1]
       (tiny_control, fresh_locals tiny_cfg, tiny_surroundings)
     = Some (c2, loc2, \<lparr>gui_polls = [], fp = None, completed = [(0, 0), (0, 1)]\<rparr>) \<and>
     tiny_ready c2 \<and> trial c2 = 0 \<and> \<not> in_run c2 \<and> \<not> sim_is_paused c2"
proof -
  have loc0: "length (goSpkCounter (fresh_locals tiny_cfg)) = 2"
    by (simp add: fresh_locals_def tiny_cfg_def)
  obtain c1 loc1 where s1: "timestep toy_externals tiny_cfg tiny_weights (Some ()) 0
        (tiny_control, fresh_locals tiny_cfg, tiny_surroundings)
      = Some (c1, loc1, tiny_surroundings\<lparr>completed := completed tiny_surroundings @ [(trial tiny_control, 0)],
                          gui_polls := polls_after (gui_polls tiny_surroundings)\<rparr>)"
    and c1: "tiny_ready c1" "length (goSpkCounter loc1) = 2" "trial c1 = trial tiny_control"
      "(in_run c1, sim_is_paused c1)
       = flags_after (gui_polls tiny_surroundings) (in_run tiny_control, sim_is_paused tiny_control)"
    using tiny_timestep[OF tiny_control_ready(1) loc0, of 0 tiny_surroundings] by auto
  have fl1: "\<not> in_run c1" "\<not> sim_is_paused c1"
    using c1(4) tiny_control_ready
    by (simp_all add: flags_after_def tiny_surroundings_def cancel_def)
  let ?s1 = "\<lparr>gui_polls = [], fp = None, completed = [(0, 0)]\<rparr> :: unit surroundings"
  have s1': "timestep toy_externals tiny_cfg tiny_weights (Some ()) 0
        (tiny_control, fresh_locals tiny_cfg, tiny_surroundings) = Some (c1, loc1, ?s1)"
    using s1 by (simp add: tiny_surroundings_def polls_after_def tiny_control_ready)
  obtain c2 loc2 where s2: "timestep toy_externals tiny_cfg tiny_weights (Some ()) 1 (c1, loc1, ?s1)
      = Some (c2, loc2, ?s1\<lparr>completed := completed ?s1 @ [(trial c1, 1)],
                          gui_polls := polls_after (gui_polls ?s1)\<rparr>)"
    and c2: "tiny_ready c2" "trial c2 = trial c1"
      "(in_run c2, sim_is_paused c2) = flags_after (gui_polls ?s1) (in_run c1, sim_is_paused c1)"
    using tiny_timestep[OF c1(1,2), of 1 ?s1] by auto
  have fl2: "\<not> in_run c2" "\<not> sim_is_paused c2"
    using c2(3) fl1 by (simp_all add: flags_after_def)
  have s2': "timestep toy_externals tiny_cfg tiny_weights (Some ()) 1 (c1, loc1, ?s1)
      = Some (c2, loc2, \<lparr>gui_polls = [], fp = None, completed = [(0, 0), (0, 1)]\<rparr>)"
    using s2 c1(3) by (simp add: polls_after_def tiny_control_ready)
  show ?thesis
    using s1' s2' c2(1,2) c1(3) fl2 by (simp add: tiny_control_ready)
qed

lemma tiny_run:
  "\<exists>c'. trial_loop toy_externals tiny_cfg tiny_weights (Some ()) (tiny_control, tiny_surroundings)
         = Returned (c', \<lparr>gui_polls = [], fp = None, completed = [(0, 0), (0, 1)]\<rparr>) \<and>
        trial c' = 1 \<and> \<not> in_run c'"
proof -
  let ?s2 = "\<lparr>gui_polls = [], fp = None, completed = [(0, 0), (0, 1)]\<rparr> :: unit surroundings"
  obtain c2 loc2 where steps: "run_timesteps toy_externals tiny_cfg tiny_weights (Some ()) [0, 1]
       (tiny_control, fresh_locals tiny_cfg, tiny_surroundings) = Some (c2, loc2, ?s2)"
    and c2: "tiny_ready c2" "trial c2 = 0" "\<not> in_run c2" "\<not> sim_is_paused c2"
    using tiny_steps by blast
  have "\<forall>i. allocated (spike_sums c2 i) \<and> 2 \<le> unat (num_cells (spike_sums c2 i))"
    using c2(1) by (simp add: tiny_ready_def)
  then obtain ss fr where
    fr: "calculate_firing_rates tiny_cfg c2 = Some (c2\<lparr>spike_sums := ss, firing_rates := fr\<rparr>)"
    using calculate_firing_rates_returns by blast
  let ?c3 = "reset_spike_sums (c2\<lparr>spike_sums := ss, firing_rates := fr\<rparr>)"
  have start: "sint (homeoTuningTrials tiny_cfg) \<le> sint (trial tiny_control)"
    by (simp add: tiny_cfg_def tiny_control_ready)
  have body: "trial_body toy_externals tiny_cfg tiny_weights (Some ()) (tiny_control, tiny_surroundings)
              = Returned (?c3, ?s2)"
    using c2 start steps by (simp add: trial_body_def tiny_timesteps fr)
  have c3: "trial ?c3 = 0" "\<not> in_run ?c3"
    using c2 by (simp_all add: reset_spike_sums_def)
  have go: "sint (trial tiny_control) < sint (numTotalTrials tiny_cfg) \<and> in_run tiny_control"
    by (simp add: tiny_control_ready tiny_total)
  have stop: "\<not> (sint (trial (?c3\<lparr>trial := trial ?c3 + 1\<rparr>)) < sint (numTotalTrials tiny_cfg) \<and>
                in_run (?c3\<lparr>trial := trial ?c3 + 1\<rparr>))"
    using c3 by simp
  have "trial_loop toy_externals tiny_cfg tiny_weights (Some ()) (tiny_control, tiny_surroundings)
        = trial_loop toy_externals tiny_cfg tiny_weights (Some ())
            (?c3\<lparr>trial := trial ?c3 + 1\<rparr>, ?s2)"
    using go by (subst trial_loop.simps) (simp add: body)
  also have "\<dots> = Returned (?c3\<lparr>trial := trial ?c3 + 1\<rparr>, ?s2)"
    using stop by (subst trial_loop.simps) auto
  finally show ?thesis
    using c3 by auto
qed

lemma tiny_whole: "whole_trials tiny_cfg 0 1 = [(0, 0), (0, 1)]"
proof -
  have "sint (homeoTuningTrials tiny_cfg) = 0"
    by (simp add: tiny_cfg_def)
  then show ?thesis
    by (simp add: whole_trials_def trial_steps_def tiny_timesteps)
qed

text \<open>
  Claim C6 (cancellation granularity). The flag \<open>in_run\<close> is looked at where the trial
  counter is: at the boundary of a trial, and nowhere else.
  At a boundary the loop stops at once, with nothing more done, when the trial counter
  has reached the total number of trials or the flag is found cleared.
  Otherwise the trial is run: whatever the events of the front end do to the flag during
  its timesteps, the body of the trial completes every timestep of the trial, and the
  loop goes on from the next boundary (or waits for ever in the pause loop at the end of
  this trial).
  So whenever the loop returns or waits for ever, the timesteps it has completed are
  exactly all the timesteps of the trials it went through, from the first one up to some
  trial \<open>n\<close>: no trial is left with some of its timesteps done and others not, and in
  a history that began empty every trial with a completed timestep has all its timesteps
  completed. When the loop returns, \<open>n\<close> is the trial counter, and the counter has
  reached the total or the flag was found cleared at that boundary.
\<close>

theorem cancellation_granularity:
  "(\<not> (sint (trial c) < sint (numTotalTrials cfg) \<and> in_run c) \<longrightarrow>
      trial_loop E cfg W gui (c, s) = Returned (c, s)) \<and>
   (sint (trial c) < sint (numTotalTrials cfg) \<and> in_run c \<longrightarrow>
      (case trial_body E cfg W gui (c, s) of
         Returned (c1, s1) \<Rightarrow>
           completed s1 = completed s @ trial_steps cfg (trial c) \<and>
           trial_loop E cfg W gui (c, s)
           = trial_loop E cfg W gui (c1\<lparr>trial := trial c + 1\<rparr>, s1)
       | Blocked (c1, s1) \<Rightarrow>
           completed s1 = completed s @ trial_steps cfg (trial c) \<and>
           trial_loop E cfg W gui (c, s) = Blocked (c1, s1)
       | Undefined \<Rightarrow> trial_loop E cfg W gui (c, s) = Undefined)) \<and>
   (\<forall>c' s'. trial_loop E cfg W gui (c, s) = Returned (c', s') \<longrightarrow>
      sint (trial c) \<le> sint (trial c') \<and>
      (sint (numTotalTrials cfg) \<le> sint (trial c') \<or> \<not> in_run c') \<and>
      completed s' = completed s @ whole_trials cfg (trial c) (trial c')) \<and>
   (\<forall>c' s'. trial_loop E cfg W gui (c, s) = Blocked (c', s') \<longrightarrow>
      sint (trial c) \<le> sint (trial c') \<and> sint (trial c') < sint (numTotalTrials cfg) \<and>
      completed s' = completed s @ whole_trials cfg (trial c) (trial c' + 1)) \<and>
   (completed s = [] \<longrightarrow>
      (\<forall>c' s' t k k'.
         (trial_loop E cfg W gui (c, s) = Returned (c', s') \<or>
          trial_loop E cfg W gui (c, s) = Blocked (c', s')) \<and>
         (t, k) \<in> set (completed s') \<and> k' \<in> set (timesteps cfg) \<longrightarrow>
         (t, k') \<in> set (completed s')))"
proof (intro conjI impI allI)
  assume "\<not> (sint (trial c) < sint (numTotalTrials cfg) \<and> in_run c)"
  then show "trial_loop E cfg W gui (c, s) = Returned (c, s)"
    by (subst trial_loop.simps) auto
next
  assume go: "sint (trial c) < sint (numTotalTrials cfg) \<and> in_run c"
  show "case trial_body E cfg W gui (c, s) of
         Returned (c1, s1) \<Rightarrow>
           completed s1 = completed s @ trial_steps cfg (trial c) \<and>
           trial_loop E cfg W gui (c, s)
           = trial_loop E cfg W gui (c1\<lparr>trial := trial c + 1\<rparr>, s1)
       | Blocked (c1, s1) \<Rightarrow>
           completed s1 = completed s @ trial_steps cfg (trial c) \<and>
           trial_loop E cfg W gui (c, s) = Blocked (c1, s1)
       | Undefined \<Rightarrow> trial_loop E cfg W gui (c, s) = Undefined"
  proof (cases "trial_body E cfg W gui (c, s)")
    case Undefined
    then show ?thesis
      using go by (subst trial_loop.simps) auto
  next
    case (Blocked y)
    obtain c1 s1 where y: "y = (c1, s1)" by (cases y)
    have "trial_loop E cfg W gui (c, s) = Blocked (c1, s1)"
      using go Blocked y by (subst trial_loop.simps) auto
    then show ?thesis
      using trial_body_log[of E cfg W gui c s c1 s1] Blocked y by simp
  next
    case (Returned y)
    obtain c1 s1 where y: "y = (c1, s1)" by (cases y)
    have body: "trial c1 = trial c" "completed s1 = completed s @ trial_steps cfg (trial c)"
      using trial_body_log[of E cfg W gui c s c1 s1] Returned y by simp_all
    have "trial_loop E cfg W gui (c, s)
          = trial_loop E cfg W gui (c1\<lparr>trial := trial c1 + 1\<rparr>, s1)"
      using go Returned y by (subst trial_loop.simps) auto
    then show ?thesis
      using body Returned y by simp
  qed
next
  fix c' s'
  assume r: "trial_loop E cfg W gui (c, s) = Returned (c', s')"
  note log = trial_loop_log[of E cfg W gui c s c' s']
  show "sint (trial c) \<le> sint (trial c')"
    using log r by simp
  show "sint (numTotalTrials cfg) \<le> sint (trial c') \<or> \<not> in_run c'"
    using log r by simp
  show "completed s' = completed s @ whole_trials cfg (trial c) (trial c')"
    using log r by simp
next
  fix c' s'
  assume b: "trial_loop E cfg W gui (c, s) = Blocked (c', s')"
  note log = trial_loop_log[of E cfg W gui c s c' s']
  show "sint (trial c) \<le> sint (trial c')"
    using log b by simp
  show "sint (trial c') < sint (numTotalTrials cfg)"
    using log b by simp
  show "completed s' = completed s @ whole_trials cfg (trial c) (trial c' + 1)"
    using log b by simp
next
  fix c' s' t k k'
  assume empty: "completed s = []"
    and a: "(trial_loop E cfg W gui (c, s) = Returned (c', s') \<or>
          trial_loop E cfg W gui (c, s) = Blocked (c', s')) \<and>
         (t, k) \<in> set (completed s') \<and> k' \<in> set (timesteps cfg)"
  note log = trial_loop_log[of E cfg W gui c s c' s']
  have "\<exists>n. completed s' = whole_trials cfg (trial c) n"
    using log a empty by auto
  then show "(t, k') \<in> set (completed s')"
    using a whole_trials_complete by metis
qed

theorem cancellation_granularity_witness:
  "\<exists>c' s'. trial_loop toy_externals tiny_cfg tiny_weights (Some ())
              (tiny_control, tiny_surroundings) = Returned (c', s') \<and>
     gui_polls tiny_surroundings = [Some cancel] \<and> in_run tiny_control \<and>
     trial c' = 1 \<and> sint (trial c') < sint (numTotalTrials tiny_cfg) \<and> in_run c' = False \<and>
     completed s' = whole_trials tiny_cfg 0 1 \<and> completed s' = [(0, 0), (0, 1)] \<and>
     trial_loop toy_externals tiny_cfg tiny_weights (Some ()) (c', s') = Returned (c', s')"
proof -
  obtain c' where run: "trial_loop toy_externals tiny_cfg tiny_weights (Some ())
        (tiny_control, tiny_surroundings)
      = Returned (c', \<lparr>gui_polls = [], fp = None, completed = [(0, 0), (0, 1)]\<rparr>)"
    and c': "trial c' = 1" "\<not> in_run c'"
    using tiny_run by blast
  let ?s' = "\<lparr>gui_polls = [], fp = None, completed = [(0, 0), (0, 1)]\<rparr> :: unit surroundings"
  have "completed ?s' = completed tiny_surroundings
        @ whole_trials tiny_cfg (trial tiny_control) (trial c')"
    using cancellation_granularity[of tiny_control tiny_cfg toy_externals tiny_weights
        "Some ()" tiny_surroundings] run
    by blast
  then have whole: "completed ?s' = whole_trials tiny_cfg 0 1"
    using c' by (simp add: tiny_surroundings_def tiny_control_ready)
  have "\<not> (sint (trial c') < sint (numTotalTrials tiny_cfg) \<and> in_run c')"
    using c' by simp
  then have stop: "trial_loop toy_externals tiny_cfg tiny_weights (Some ()) (c', ?s')
                   = Returned (c', ?s')"
    using cancellation_granularity[of c' tiny_cfg toy_externals tiny_weights "Some ()" ?s']
    by blast
  show ?thesis
    using run c' whole stop
    by (intro exI[of _ c'] exI[of _ ?s'])
      (simp add: tiny_surroundings_def tiny_total tiny_control_ready)
qed

section \<open>The weight arguments of \<open>runTrials\<close>\<close>

text \<open>
  Claim C9 (the weight arguments have no effect). For any two triples of values of the
  arguments \<open>GOGR\<close>, \<open>GRGO\<close> and \<open>MFGO\<close>, \<open>runTrials\<close> ends in the same way with the same
  state of the engine and of its surroundings: before the loop it assigns the three
  constants 0.017, 0.0007 * 0.9 and 0.00350 * 0.9, and these are the weights that every
  kernel step of the loop receives.
\<close>

theorem runTrials_ignores_weights:
  "runTrials E cfg simNum GOGR GRGO MFGO gui (c, s)
     = runTrials E cfg simNum GOGR' GRGO' MFGO' gui (c, s) \<and>
   runTrials E cfg simNum GOGR GRGO MFGO gui (c, s)
     = (case gen_gr_sample E (gr_indices c) 4096 (sint (num_gr cfg)) of
          None \<Rightarrow> Undefined
        | Some indices \<Rightarrow>
            run_loop E cfg
              \<lparr>w_GOGR = FConst 0.017,
               w_GRGO = FMul (FConst 0.0007) (FConst 0.9),
               w_MFGO = FMul (FConst 0.00350) (FConst 0.9)\<rparr>
              gui
              (c\<lparr>gr_indices := indices\<rparr>,
               s\<lparr>fp := (if sim_vis_mode c = TUI then init_tty E None else None)\<rparr>))"
  by (cases "gen_gr_sample E (gr_indices c) 4096 (sint (num_gr cfg))")
    (simp_all add: runTrials_def Let_def)

end
